theory Spec2Isabelle
  imports Complex_Main "HOL-Library.Sublist"
begin

section \<open>The globals of sketch.js\<close>

text \<open>
  JavaScript numbers are modelled by \<open>real\<close> where the sketch computes with pixel
  coordinates and milliseconds, by \<open>nat\<close> where it counts (loop indices, the level, the
  match cursor) and by \<open>int\<close> for the entries of the two note sequences, which come
  from \<open>floor(random(0, numKeys))\<close>. The constants below are declared once in the
  sketch and never assigned again.
\<close>

definition w :: real where
  "w = 640"

definition h :: real where
  "h = 480"

definition numKeys :: nat where
  "numKeys = 8"

definition debounceTime :: real where
  "debounceTime = 500"

text \<open>A p5 colour: \<open>color(255)\<close> is \<open>Gray 255\<close>, \<open>color(0, 0, 255)\<close> is \<open>RGB 0 0 255\<close>.\<close>

datatype color = Gray nat | RGB nat nat nat

text \<open>
  A detected hand. The sketch reads only \<open>hand.keypoints[8]\<close>, the tip of the index
  finger, which the hand tracker supplies for every hand it reports.
\<close>

datatype keypoint = Keypoint (kp_x: real) (kp_y: real)

datatype hand = Hand (keypoint8: keypoint)

text \<open>
  The closures handed to \<open>setTimeout\<close>, one constructor per closure of the source,
  carrying the variables the closure captures:
  \<^item> \<open>RevertKeyColor j\<close>: lines 130-132, inside \<open>draw\<close>;
  \<^item> \<open>PlaySequence\<close>: line 197, the function \<open>playSequence\<close> itself;
  \<^item> \<open>ReplayNote noteIndex\<close>: lines 206-212;
  \<^item> \<open>RevertNoteColor noteIndex\<close>: lines 209-211;
  \<^item> \<open>EndSequence\<close>: lines 214-216;
  \<^item> \<open>ClearMessage\<close>: lines 241 and 250.
\<close>

datatype callback =
    RevertKeyColor nat
  | PlaySequence
  | ReplayNote int
  | RevertNoteColor int
  | EndSequence
  | ClearMessage

text \<open>
  What a handler does to the canvas and to the audio bank, in the order of the calls.
  \<open>Level n\<close> is the template string \<open>`Level ${n}`\<close>.
\<close>

datatype align = CENTER | BOTTOM

datatype label = Literal string | Level nat

datatype effect =
    Background nat
  | Push
  | Pop
  | Translate real real
  | Scale real real
  | Image real real real real
  | Fill "color option"
  | Stroke nat
  | Rect real real real real
  | TextSize nat
  | TextAlign align align
  | Text label real real
  | NotePlay nat

text \<open>
  The mutable globals. The arrays \<open>isKeyPressed\<close> and \<open>keyColors\<close> are only ever read
  and written by index, so they are maps from indices (a missing entry is JavaScript's
  \<open>undefined\<close>). \<open>timers\<close> holds the pending \<open>setTimeout\<close> calls with the time
  at which each falls due. \<open>randomSource\<close> is the sequence of values that the calls of
  \<open>random(0, numKeys)\<close> return, \<open>randomCalls\<close> counts the calls made so far.
\<close>

record state =
  hands :: "hand list"
  isKeyPressed :: "nat \<rightharpoonup> bool"
  whiteKeyWidth :: real
  whiteKeyHeight :: real
  blackKeyWidth :: real
  blackKeyHeight :: real
  gameSequence :: "int list"
  playerSequence :: "int list"
  currentNoteIndex :: nat
  sequencePlaying :: bool
  keyColors :: "nat \<rightharpoonup> color"
  sequenceLength :: nat
  message :: string
  lastKeyPressTime :: real
  a :: nat
  b :: nat
  c :: nat
  timers :: "(real \<times> callback) list"
  randomSource :: "nat \<Rightarrow> real"
  randomCalls :: nat

text \<open>
  The values of the declarations at the top of the file. The four key sizes are declared
  without a value and assigned in \<open>setup\<close> before anything reads them.
\<close>

definition initial :: "(nat \<Rightarrow> real) \<Rightarrow> state" where
  "initial rnd =
     \<lparr> hands = [], isKeyPressed = Map.empty,
       whiteKeyWidth = 0, whiteKeyHeight = 0, blackKeyWidth = 0, blackKeyHeight = 0,
       gameSequence = [], playerSequence = [], currentNoteIndex = 0,
       sequencePlaying = False, keyColors = Map.empty, sequenceLength = 1,
       message = [], lastKeyPressTime = 0, a = 0, b = 0, c = 0,
       timers = [], randomSource = rnd, randomCalls = 0 \<rparr>"

section \<open>Timers\<close>

text \<open>\<open>setTimeout(cb, delay)\<close> called at time \<open>now\<close>.\<close>

definition setTimeout :: "real \<Rightarrow> real \<Rightarrow> callback \<Rightarrow> state \<Rightarrow> state" where
  "setTimeout now delay cb s = s\<lparr>timers := timers s @ [(now + delay, cb)]\<rparr>"

section \<open>preload\<close>

function preloadLoop :: "nat \<Rightarrow> state \<Rightarrow> state" where
  "preloadLoop i s =
     (if i < numKeys
      then preloadLoop (Suc i)
             (s\<lparr>isKeyPressed := (isKeyPressed s)(i \<mapsto> False),
                keyColors := (keyColors s)(i \<mapsto> Gray 255)\<rparr>)
      else s)"
  by pat_completeness auto
termination
  by (relation "measure (\<lambda>(i, s). numKeys - i)") auto

definition preload :: "state \<Rightarrow> state" where
  "preload s = preloadLoop 0 s"

section \<open>generateSequence and playSequence\<close>

function generateLoop :: "nat \<Rightarrow> state \<Rightarrow> state" where
  "generateLoop i s =
     (if i < sequenceLength s
      then generateLoop (Suc i)
             (s\<lparr>gameSequence := gameSequence s @ [\<lfloor>randomSource s (randomCalls s)\<rfloor>],
                randomCalls := Suc (randomCalls s)\<rparr>)
      else s)"
  by pat_completeness auto
termination
  by (relation "measure (\<lambda>(i, s). sequenceLength s - i)") auto

definition generateSequence :: "real \<Rightarrow> state \<Rightarrow> state" where
  "generateSequence now s =
     setTimeout now 2000 PlaySequence
       (generateLoop 0
          (s\<lparr>gameSequence := [], playerSequence := [], currentNoteIndex := 0,
             sequencePlaying := True\<rparr>))"

function playLoop :: "real \<Rightarrow> nat \<Rightarrow> state \<Rightarrow> state" where
  "playLoop now i s =
     (if i < length (gameSequence s)
      then (let delay = 500; noteIndex = gameSequence s ! i
            in playLoop now (Suc i) (setTimeout now (real i * delay) (ReplayNote noteIndex) s))
      else s)"
  by pat_completeness auto
termination
  by (relation "measure (\<lambda>(now, i, s). length (gameSequence s) - i)")
     (auto simp: setTimeout_def)

definition playSequence :: "real \<Rightarrow> state \<Rightarrow> state" where
  "playSequence now s =
     (let s1 = playLoop now 0 s
      in setTimeout now (real (length (gameSequence s1)) * 500) EndSequence s1)"

section \<open>checkVictory, checkLoss and displayMessage\<close>

text \<open>
  \<open>JSON.stringify\<close> of two arrays of integers gives the same text exactly when the
  arrays are equal.
\<close>

definition checkVictory :: "real \<Rightarrow> state \<Rightarrow> state" where
  "checkVictory now s =
     (if playerSequence s = gameSequence s
      then (let s1 = s\<lparr>sequenceLength := Suc (sequenceLength s)\<rparr>;
                s2 = generateSequence now s1;
                s3 = s2\<lparr>message := ''Correct! Level Up!''\<rparr>
            in setTimeout now 1000 ClearMessage s3)
      else s)"

definition checkLoss :: "real \<Rightarrow> state \<Rightarrow> state" where
  "checkLoss now s =
     (let s1 = s\<lparr>sequenceLength := 1\<rparr>;
          s2 = generateSequence now s1;
          s3 = s2\<lparr>message := ''Wrong Key!''\<rparr>
      in setTimeout now 1000 ClearMessage s3)"

definition displayMessage :: "string \<Rightarrow> state \<Rightarrow> effect list \<times> state" where
  "displayMessage msg s =
     (let s1 = (if msg = ''Correct! Level Up!'' then s\<lparr>b := 255\<rparr> else s\<lparr>a := 255\<rparr>)
      in ([TextSize 30, Fill (Some (RGB (a s1) (b s1) (c s1))),
           TextAlign CENTER CENTER, Text (Literal msg) (w / 2) (h / 2)],
          s1\<lparr>a := 0, b := 0\<rparr>))"

section \<open>drawPiano\<close>

function whiteKeysLoop :: "nat \<Rightarrow> state \<Rightarrow> effect list" where
  "whiteKeysLoop i s =
     (if i < numKeys
      then (let whiteKeyX = real i * whiteKeyWidth s
            in [Fill (keyColors s i), Stroke 0,
                Rect whiteKeyX 0 (whiteKeyWidth s) (whiteKeyHeight s)]
               @ whiteKeysLoop (Suc i) s)
      else [])"
  by pat_completeness auto
termination
  by (relation "measure (\<lambda>(i, s). numKeys - i)") auto

function blackKeysLoop :: "nat \<Rightarrow> state \<Rightarrow> effect list" where
  "blackKeysLoop i s =
     (if i < numKeys - 1
      then (if i \<noteq> 2 \<and> i \<noteq> 6
            then (let blackKeyX = real (i + 1) * whiteKeyWidth s - blackKeyWidth s / 2
                  in [Fill (Some (Gray 0)), Stroke 0,
                      Rect blackKeyX 0 (blackKeyWidth s) (blackKeyHeight s)])
            else [])
           @ blackKeysLoop (Suc i) s
      else [])"
  by pat_completeness auto
termination
  by (relation "measure (\<lambda>(i, s). numKeys - 1 - i)") auto

definition drawPiano :: "state \<Rightarrow> effect list" where
  "drawPiano s = whiteKeysLoop 0 s @ blackKeysLoop 0 s"

section \<open>setup\<close>

text \<open>The function \<open>setup\<close> of the sketch (lines 78-85; the name is taken in Isabelle).\<close>

definition sketch_setup :: "real \<Rightarrow> state \<Rightarrow> state" where
  "sketch_setup now s =
     (let s1 = s\<lparr>whiteKeyWidth := w / real numKeys\<rparr>;
          s2 = s1\<lparr>whiteKeyHeight := h / 3\<rparr>;
          s3 = s2\<lparr>blackKeyWidth := whiteKeyWidth s2 * 0.6\<rparr>;
          s4 = s3\<lparr>blackKeyHeight := whiteKeyHeight s3 * 0.7\<rparr>
      in generateSequence now s4)"

section \<open>draw\<close>

text \<open>
  One call of \<open>draw\<close> runs at one instant \<open>now\<close>: both reads of \<open>millis()\<close> in lines
  123 and 126 give \<open>now\<close>. \<open>keyBody\<close> is the body of the loop over \<open>j\<close> (lines 117-147);
  a read of \<open>gameSequence\<close> past its end gives \<open>undefined\<close>, which is not \<open>j\<close>.
\<close>

definition keyBody :: "real \<Rightarrow> keypoint \<Rightarrow> nat \<Rightarrow> state \<Rightarrow> effect list \<times> state" where
  "keyBody now keypoint j s =
     (let correctedX = w - kp_x keypoint;
          whiteKeyX = real j * whiteKeyWidth s;
          whiteKeyY = 0
      in if correctedX > whiteKeyX \<and> correctedX < whiteKeyX + whiteKeyWidth s
            \<and> kp_y keypoint > whiteKeyY \<and> kp_y keypoint < whiteKeyHeight s
         then (if isKeyPressed s j \<noteq> Some True \<and> now - lastKeyPressTime s > debounceTime
               then (let s1 = s\<lparr>isKeyPressed := (isKeyPressed s)(j \<mapsto> True),
                                lastKeyPressTime := now,
                                keyColors := (keyColors s)(j \<mapsto> RGB 0 0 255)\<rparr>;
                         s2 = setTimeout now 500 (RevertKeyColor j) s1
                     in ([NotePlay j],
                         if currentNoteIndex s2 < length (gameSequence s2)
                            \<and> gameSequence s2 ! currentNoteIndex s2 = int j
                         then (let s3 = s2\<lparr>playerSequence := playerSequence s2 @ [int j],
                                           currentNoteIndex := Suc (currentNoteIndex s2)\<rparr>
                               in if length (playerSequence s3) = length (gameSequence s3)
                                  then checkVictory now s3
                                  else s3)
                         else checkLoss now s2))
               else ([], s))
         else ([], s\<lparr>isKeyPressed := (isKeyPressed s)(j \<mapsto> False)\<rparr>))"

function keysLoop :: "real \<Rightarrow> keypoint \<Rightarrow> nat \<Rightarrow> state \<Rightarrow> effect list \<times> state" where
  "keysLoop now keypoint j s =
     (if j < numKeys
      then (let r1 = keyBody now keypoint j s;
                r2 = keysLoop now keypoint (Suc j) (snd r1)
            in (fst r1 @ fst r2, snd r2))
      else ([], s))"
  by pat_completeness auto
termination
  by (relation "measure (\<lambda>(now, keypoint, j, s). numKeys - j)") auto

fun handsLoop :: "real \<Rightarrow> hand list \<Rightarrow> state \<Rightarrow> effect list \<times> state" where
  "handsLoop now [] s = ([], s)"
| "handsLoop now (hand # rest) s =
     (let r1 = keysLoop now (keypoint8 hand) 0 s;
          r2 = handsLoop now rest (snd r1)
      in (fst r1 @ fst r2, snd r2))"

definition draw :: "real \<Rightarrow> state \<Rightarrow> effect list \<times> state" where
  "draw now s =
     (if message s \<noteq> []
      then (let r = displayMessage (message s) s in (Background 0 # fst r, snd r))
      else (let r = handsLoop now (hands s) s
            in ([Background 0, Push, Translate w 0, Scale (- 1) 1, Image 0 0 w h, Pop]
                @ drawPiano s @ fst r
                @ [TextSize 24, TextAlign CENTER BOTTOM, Fill (Some (Gray 255)),
                   Text (Level (sequenceLength (snd r))) (w / 2) (h - 50),
                   TextSize 15,
                   Text (Literal ''Follow the sequence! Hover your index finger over the keys in the correct order.'')
                     (w / 2) (h - 20)],
                snd r)))"

definition gotHands :: "hand list \<Rightarrow> state \<Rightarrow> state" where
  "gotHands results s = s\<lparr>hands := results\<rparr>"

section \<open>The event loop\<close>

text \<open>
  What a timer does when it fires at time \<open>now\<close>. In \<open>ReplayNote\<close>, \<open>notes\<close> has the
  entries \<open>0 .. numKeys - 1\<close>; for any other index \<open>notes[noteIndex]\<close> is
  \<open>undefined\<close>, the call of \<open>play\<close> throws and the rest of the closure does not run.
\<close>

fun runCallback :: "real \<Rightarrow> callback \<Rightarrow> state \<Rightarrow> effect list \<times> state" where
  "runCallback now (RevertKeyColor j) s =
     ([], s\<lparr>keyColors := (keyColors s)(j \<mapsto> Gray 255)\<rparr>)"
| "runCallback now PlaySequence s = ([], playSequence now s)"
| "runCallback now (ReplayNote noteIndex) s =
     (if 0 \<le> noteIndex \<and> noteIndex < int numKeys
      then ([NotePlay (nat noteIndex)],
            setTimeout now 500 (RevertNoteColor noteIndex)
              (s\<lparr>keyColors := (keyColors s)(nat noteIndex \<mapsto> RGB 0 0 255)\<rparr>))
      else ([], s))"
| "runCallback now (RevertNoteColor noteIndex) s =
     ([], if 0 \<le> noteIndex
          then s\<lparr>keyColors := (keyColors s)(nat noteIndex \<mapsto> Gray 255)\<rparr>
          else s)"
| "runCallback now EndSequence s = ([], s\<lparr>sequencePlaying := False\<rparr>)"
| "runCallback now ClearMessage s = ([], s\<lparr>message := []\<rparr>)"

text \<open>
  The browser's single thread runs one handler at a time: a frame, a result of the hand
  tracker, or a pending timer that has fallen due (it leaves the queue when it fires).
  Any due timer may fire, in any order with the frames.
\<close>

datatype event = DrawFrame real | GotHands "hand list" | TimerFires real nat

fun step :: "event \<Rightarrow> state \<Rightarrow> effect list \<times> state" where
  "step (DrawFrame now) s = draw now s"
| "step (GotHands results) s = ([], gotHands results s)"
| "step (TimerFires now k) s =
     (if k < length (timers s) \<and> fst (timers s ! k) \<le> now
      then runCallback now (snd (timers s ! k))
             (s\<lparr>timers := take k (timers s) @ drop (Suc k) (timers s)\<rparr>)
      else ([], s))"

fun run :: "event list \<Rightarrow> state \<Rightarrow> state" where
  "run [] s = s"
| "run (e # es) s = run es (snd (step e s))"

text \<open>The state in which the game loop starts: the globals, then \<open>preload\<close>, then \<open>setup\<close>.\<close>

definition start :: "(nat \<Rightarrow> real) \<Rightarrow> real \<Rightarrow> state" where
  "start rnd now = sketch_setup now (preload (initial rnd))"

section \<open>Derived notions used in the proofs\<close>

text \<open>The test of line 121: the mirrored fingertip lies strictly inside white key \<open>j\<close>.\<close>

definition inside :: "keypoint \<Rightarrow> nat \<Rightarrow> state \<Rightarrow> bool" where
  "inside keypoint j s \<longleftrightarrow>
     w - kp_x keypoint > real j * whiteKeyWidth s
     \<and> w - kp_x keypoint < real j * whiteKeyWidth s + whiteKeyWidth s
     \<and> kp_y keypoint > 0 \<and> kp_y keypoint < whiteKeyHeight s"

text \<open>
  The block of lines 124-143 as a function of the state: what \<open>keyBody\<close> does to the
  state when it accepts a press of key \<open>j\<close>.
\<close>

definition acceptPress :: "real \<Rightarrow> nat \<Rightarrow> state \<Rightarrow> state" where
  "acceptPress now j s =
     (let s2 = setTimeout now 500 (RevertKeyColor j)
                 (s\<lparr>isKeyPressed := (isKeyPressed s)(j \<mapsto> True),
                    lastKeyPressTime := now,
                    keyColors := (keyColors s)(j \<mapsto> RGB 0 0 255)\<rparr>)
      in if currentNoteIndex s2 < length (gameSequence s2)
            \<and> gameSequence s2 ! currentNoteIndex s2 = int j
         then (let s3 = s2\<lparr>playerSequence := playerSequence s2 @ [int j],
                           currentNoteIndex := Suc (currentNoteIndex s2)\<rparr>
               in if length (playerSequence s3) = length (gameSequence s3)
                  then checkVictory now s3
                  else s3)
         else checkLoss now s2)"

text \<open>
  What one frame can do: either it accepts no press and changes nothing but the
  \<open>isKeyPressed\<close> flags, or it accepts exactly one press, after the debounce time, and
  the state is that of \<open>acceptPress\<close> up to the flags.
\<close>

definition frameRel :: "real \<Rightarrow> state \<Rightarrow> effect list \<times> state \<Rightarrow> bool" where
  "frameRel now s r \<longleftrightarrow>
     (fst r = [] \<and> snd r = s\<lparr>isKeyPressed := isKeyPressed (snd r)\<rparr>)
     \<or> (\<exists>j. j < numKeys \<and> fst r = [NotePlay j]
            \<and> now - lastKeyPressTime s > debounceTime
            \<and> snd r = (acceptPress now j s)\<lparr>isKeyPressed := isKeyPressed (snd r)\<rparr>)"

text \<open>
  The invariant of the game loop: the cursor counts the entries of \<open>playerSequence\<close>,
  which is a proper prefix of \<open>gameSequence\<close>, whose length is the level.
\<close>

definition gameInv :: "state \<Rightarrow> bool" where
  "gameInv s \<longleftrightarrow>
     currentNoteIndex s = length (playerSequence s)
     \<and> prefix (playerSequence s) (gameSequence s)
     \<and> length (playerSequence s) < length (gameSequence s)
     \<and> length (gameSequence s) = sequenceLength s"

text \<open>
  The presses a run accepts: the notes that the frames of the run play (line 124), each
  with the time of its frame, in order. Notes played by the replay timers are not presses.
\<close>

fun notePlays :: "effect list \<Rightarrow> nat list" where
  "notePlays [] = []"
| "notePlays (NotePlay j # es) = j # notePlays es"
| "notePlays (e # es) = notePlays es"

fun presses :: "event list \<Rightarrow> state \<Rightarrow> (real \<times> nat) list" where
  "presses [] s = []"
| "presses (DrawFrame now # evs) s =
     map (\<lambda>j. (now, j)) (notePlays (fst (draw now s))) @ presses evs (snd (draw now s))"
| "presses (ev # evs) s = presses evs (snd (step ev s))"

text \<open>Each time in the list is more than the debounce time after the one before it.\<close>

fun separated :: "real \<Rightarrow> (real \<times> nat) list \<Rightarrow> bool" where
  "separated t [] = True"
| "separated t (p # ps) = (fst p - t > debounceTime \<and> separated (fst p) ps)"

text \<open>
  The keyboard as drawn: the rectangles among the effects, each as its left, right, top
  and bottom edge (\<open>rect(x, y, width, height)\<close> covers \<open>x\<close> to \<open>x + width\<close> and \<open>y\<close> to
  \<open>y + height\<close>), and the horizontal centres of the black keys.
\<close>

fun rects :: "effect list \<Rightarrow> (real \<times> real \<times> real \<times> real) list" where
  "rects [] = []"
| "rects (Rect x0 y0 wd ht # es) = (x0, x0 + wd, y0, y0 + ht) # rects es"
| "rects (e # es) = rects es"

definition whiteKeySpans :: "state \<Rightarrow> (real \<times> real \<times> real \<times> real) list" where
  "whiteKeySpans s = rects (whiteKeysLoop 0 s)"

definition blackKeyCentres :: "state \<Rightarrow> real list" where
  "blackKeyCentres s = map (\<lambda>(l, r, t, bt). (l + r) / 2) (rects (blackKeysLoop 0 s))"

section \<open>The loops in closed form\<close>

declare generateLoop.simps [simp del]
declare playLoop.simps [simp del]
declare preloadLoop.simps [simp del]
declare whiteKeysLoop.simps [simp del]
declare blackKeysLoop.simps [simp del]
declare keysLoop.simps [simp del]



lemma upt_shift: "0 < n \<Longrightarrow> map f [0..<n] = f 0 # map (\<lambda>k. f (Suc k)) [0..<n - 1]"
  by (cases n) (simp_all add: upt_conv_Cons map_Suc_upt [symmetric] del: upt_Suc)

lemma generateLoop_eq:
  "generateLoop i s =
     s\<lparr>gameSequence := gameSequence s
          @ map (\<lambda>k. \<lfloor>randomSource s (randomCalls s + k)\<rfloor>) [0..<sequenceLength s - i],
       randomCalls := randomCalls s + (sequenceLength s - i)\<rparr>"
proof (induction i s rule: generateLoop.induct)
  case (1 i s)
  show ?case
  proof (cases "i < sequenceLength s")
    case True
    then have pos: "0 < sequenceLength s - i" by simp
    have d: "sequenceLength s - i - 1 = sequenceLength s - Suc i" by simp
    show ?thesis
      using True 1
      by (subst generateLoop.simps) (simp add: upt_shift [OF pos] d)
  next
    case False
    then show ?thesis
      by (subst generateLoop.simps) simp
  qed
qed

lemma playLoop_eq:
  "playLoop now i s =
     s\<lparr>timers := timers s
          @ map (\<lambda>k. (now + real k * 500, ReplayNote (gameSequence s ! k)))
              [i..<length (gameSequence s)]\<rparr>"
proof (induction now i s rule: playLoop.induct)
  case (1 now i s)
  show ?case
  proof (cases "i < length (gameSequence s)")
    case True
    show ?thesis
      using True 1
      by (subst playLoop.simps) (simp add: setTimeout_def upt_conv_Cons)
  next
    case False
    then show ?thesis
      by (subst playLoop.simps) simp
  qed
qed

lemma generateSequence_eq:
  "generateSequence now s =
     s\<lparr>gameSequence := map (\<lambda>k. \<lfloor>randomSource s (randomCalls s + k)\<rfloor>) [0..<sequenceLength s],
       playerSequence := [], currentNoteIndex := 0, sequencePlaying := True,
       randomCalls := randomCalls s + sequenceLength s,
       timers := timers s @ [(now + 2000, PlaySequence)]\<rparr>"
  by (simp add: generateSequence_def generateLoop_eq setTimeout_def)

lemma playSequence_eq:
  "playSequence now s =
     s\<lparr>timers := timers s
          @ map (\<lambda>k. (now + real k * 500, ReplayNote (gameSequence s ! k)))
              [0..<length (gameSequence s)]
          @ [(now + real (length (gameSequence s)) * 500, EndSequence)]\<rparr>"
  by (simp add: playSequence_def playLoop_eq setTimeout_def)






lemma keyBody_eq:
  "keyBody now keypoint j s =
     (if inside keypoint j s
      then (if isKeyPressed s j \<noteq> Some True \<and> now - lastKeyPressTime s > debounceTime
            then ([NotePlay j], acceptPress now j s)
            else ([], s))
      else ([], s\<lparr>isKeyPressed := (isKeyPressed s)(j \<mapsto> False)\<rparr>))"
  by (simp add: keyBody_def inside_def acceptPress_def Let_def)

lemma checkLoss_eq:
  "checkLoss now s =
     s\<lparr>sequenceLength := 1,
       gameSequence := [\<lfloor>randomSource s (randomCalls s)\<rfloor>],
       playerSequence := [], currentNoteIndex := 0, sequencePlaying := True,
       randomCalls := Suc (randomCalls s),
       message := ''Wrong Key!'',
       timers := timers s @ [(now + 2000, PlaySequence), (now + 1000, ClearMessage)]\<rparr>"
  by (simp add: checkLoss_def generateSequence_eq setTimeout_def)

lemma checkVictory_eq:
  "checkVictory now s =
     (if playerSequence s = gameSequence s
      then s\<lparr>sequenceLength := Suc (sequenceLength s),
             gameSequence := map (\<lambda>k. \<lfloor>randomSource s (randomCalls s + k)\<rfloor>)
                               [0..<Suc (sequenceLength s)],
             playerSequence := [], currentNoteIndex := 0, sequencePlaying := True,
             randomCalls := randomCalls s + Suc (sequenceLength s),
             message := ''Correct! Level Up!'',
             timers := timers s @ [(now + 2000, PlaySequence), (now + 1000, ClearMessage)]\<rparr>
      else s)"
  by (simp add: checkVictory_def generateSequence_eq setTimeout_def del: upt_Suc)

lemma acceptPress_isKeyPressed:
  "acceptPress now j (s\<lparr>isKeyPressed := F\<rparr>) = (acceptPress now j s)\<lparr>isKeyPressed := F(j \<mapsto> True)\<rparr>"
  by (simp add: acceptPress_def checkLoss_eq checkVictory_eq setTimeout_def Let_def del: upt_Suc)

lemma acceptPress_lastKeyPressTime [simp]:
  "lastKeyPressTime (acceptPress now j s) = now"
  by (simp add: acceptPress_def checkLoss_eq checkVictory_eq setTimeout_def Let_def del: upt_Suc)




lemma frameRel_refl: "frameRel now s ([], s)"
  by (simp add: frameRel_def)

lemma frameRel_keyBody:
  assumes "j < numKeys"
  shows "frameRel now s (keyBody now keypoint j s)"
  using assms by (auto simp: keyBody_eq frameRel_def)

lemma frameRel_comp:
  assumes r1: "frameRel now s r1" and r2: "frameRel now (snd r1) r2"
  shows "frameRel now s (fst r1 @ fst r2, snd r2)"
proof -
  from r1 consider
      (quiet) "fst r1 = []" "snd r1 = s\<lparr>isKeyPressed := isKeyPressed (snd r1)\<rparr>"
    | (press) j where "j < numKeys" "fst r1 = [NotePlay j]"
        "now - lastKeyPressTime s > debounceTime"
        "snd r1 = (acceptPress now j s)\<lparr>isKeyPressed := isKeyPressed (snd r1)\<rparr>"
    by (auto simp: frameRel_def)
  then show ?thesis
  proof cases
    case quiet
    from r2 consider
        (quiet2) "fst r2 = []" "snd r2 = (snd r1)\<lparr>isKeyPressed := isKeyPressed (snd r2)\<rparr>"
      | (press2) k where "k < numKeys" "fst r2 = [NotePlay k]"
          "now - lastKeyPressTime (snd r1) > debounceTime"
          "snd r2 = (acceptPress now k (snd r1))\<lparr>isKeyPressed := isKeyPressed (snd r2)\<rparr>"
      by (auto simp: frameRel_def)
    then show ?thesis
    proof cases
      case quiet2
      have "snd r2 = s\<lparr>isKeyPressed := isKeyPressed (snd r2)\<rparr>"
        by (subst quiet2(2), subst quiet(2)) simp
      with quiet quiet2 show ?thesis by (simp add: frameRel_def)
    next
      case press2
      have t: "lastKeyPressTime (snd r1) = lastKeyPressTime s"
        by (subst quiet(2)) simp
      have "snd r2 = (acceptPress now k s)\<lparr>isKeyPressed := isKeyPressed (snd r2)\<rparr>"
        by (subst press2(4), subst quiet(2)) (simp add: acceptPress_isKeyPressed)
      with quiet press2 t show ?thesis by (auto simp: frameRel_def)
    qed
  next
    case press
    have t: "lastKeyPressTime (snd r1) = now"
      by (subst press(4)) simp
    with r2 have q2: "fst r2 = []" "snd r2 = (snd r1)\<lparr>isKeyPressed := isKeyPressed (snd r2)\<rparr>"
      by (auto simp: frameRel_def debounceTime_def)
    have "snd r2 = (acceptPress now j s)\<lparr>isKeyPressed := isKeyPressed (snd r2)\<rparr>"
      by (subst q2(2), subst press(4)) simp
    with press q2 show ?thesis by (auto simp: frameRel_def)
  qed
qed

lemma frameRel_keysLoop: "frameRel now s (keysLoop now keypoint j s)"
proof (induction now keypoint j s rule: keysLoop.induct)
  case (1 now keypoint j s)
  show ?case
  proof (cases "j < numKeys")
    case True
    have "frameRel now s (keyBody now keypoint j s)"
      using True by (rule frameRel_keyBody)
    moreover have "frameRel now (snd (keyBody now keypoint j s))
        (keysLoop now keypoint (Suc j) (snd (keyBody now keypoint j s)))"
      using 1 True by simp
    ultimately show ?thesis
      using True by (subst keysLoop.simps) (simp add: Let_def frameRel_comp)
  next
    case False
    then show ?thesis
      by (subst keysLoop.simps) (simp add: frameRel_refl)
  qed
qed

lemma frameRel_handsLoop: "frameRel now s (handsLoop now hs s)"
proof (induction hs arbitrary: s)
  case Nil
  show ?case by (simp add: frameRel_refl)
next
  case (Cons hand rest)
  show ?case
    using frameRel_keysLoop Cons by (simp add: Let_def frameRel_comp)
qed

section \<open>The invariant holds in every reachable state\<close>

lemma prefix_snoc_nth:
  assumes "prefix ps gs" and "length ps < length gs"
  shows "prefix (ps @ [gs ! length ps]) gs"
proof -
  from assms(1) obtain zs where gs: "gs = ps @ zs" by (auto simp: prefix_def)
  with assms(2) obtain z zs' where zs: "zs = z # zs'" by (cases zs) auto
  show ?thesis by (simp add: gs zs)
qed

lemma prefix_same_length:
  assumes "prefix ps gs" and "length ps = length gs"
  shows "ps = gs"
  using assms by (auto simp: prefix_def)

lemma gameInv_isKeyPressed [simp]: "gameInv (s\<lparr>isKeyPressed := F\<rparr>) = gameInv s"
  by (simp add: gameInv_def)

lemma gameInv_checkLoss: "gameInv (checkLoss now s)"
  by (simp add: gameInv_def checkLoss_eq)

lemma gameInv_generateSequence: "0 < sequenceLength s \<Longrightarrow> gameInv (generateSequence now s)"
  by (simp add: gameInv_def generateSequence_eq)

lemma gameInv_checkVictory: "gameInv s \<Longrightarrow> gameInv (checkVictory now s)"
  by (simp add: gameInv_def checkVictory_eq del: upt_Suc)

lemma gameInv_acceptPress:
  assumes "gameInv s"
  shows "gameInv (acceptPress now j s)"
proof (cases "gameSequence s ! currentNoteIndex s = int j")
  case False
  then show ?thesis
    by (simp add: acceptPress_def setTimeout_def Let_def gameInv_checkLoss)
next
  case True
  from assms have idx: "currentNoteIndex s = length (playerSequence s)"
    and pre: "prefix (playerSequence s) (gameSequence s)"
    and lt: "length (playerSequence s) < length (gameSequence s)"
    and len: "length (gameSequence s) = sequenceLength s"
    by (simp_all add: gameInv_def)
  have pre': "prefix (playerSequence s @ [int j]) (gameSequence s)"
    using prefix_snoc_nth [OF pre lt] True idx by simp
  show ?thesis
  proof (cases "Suc (length (playerSequence s)) = length (gameSequence s)")
    case full: True
    have "playerSequence s @ [int j] = gameSequence s"
      using prefix_same_length [OF pre'] full by simp
    then show ?thesis
      using True idx lt full
      by (simp add: acceptPress_def setTimeout_def Let_def checkVictory_eq gameInv_def del: upt_Suc)
  next
    case False
    then show ?thesis
      using True idx lt len pre'
      by (simp add: acceptPress_def setTimeout_def Let_def gameInv_def)
  qed
qed

lemma gameInv_frameRel:
  assumes "gameInv s" and "frameRel now s r"
  shows "gameInv (snd r)"
proof -
  from assms(2) consider
      "snd r = s\<lparr>isKeyPressed := isKeyPressed (snd r)\<rparr>"
    | j where "snd r = (acceptPress now j s)\<lparr>isKeyPressed := isKeyPressed (snd r)\<rparr>"
    by (auto simp: frameRel_def)
  then show ?thesis
  proof cases
    case 1
    have "gameInv (s\<lparr>isKeyPressed := isKeyPressed (snd r)\<rparr>)"
      using assms(1) by simp
    with 1 show ?thesis by simp
  next
    case 2
    have "gameInv ((acceptPress now j s)\<lparr>isKeyPressed := isKeyPressed (snd r)\<rparr>)"
      using gameInv_acceptPress [OF assms(1)] by simp
    with 2 show ?thesis by simp
  qed
qed

lemma gameInv_draw:
  assumes "gameInv s"
  shows "gameInv (snd (draw now s))"
proof (cases "message s = []")
  case True
  then show ?thesis
    using gameInv_frameRel [OF assms frameRel_handsLoop] by (simp add: draw_def Let_def)
next
  case False
  then show ?thesis
    using assms by (simp add: draw_def Let_def displayMessage_def gameInv_def)
qed

lemma gameInv_runCallback: "gameInv s \<Longrightarrow> gameInv (snd (runCallback now cb s))"
  by (cases cb) (simp_all add: gameInv_def playSequence_eq setTimeout_def)

lemma gameInv_step: "gameInv s \<Longrightarrow> gameInv (snd (step ev s))"
proof (cases ev)
  case (DrawFrame now)
  assume "gameInv s"
  then show ?thesis using DrawFrame by (simp add: gameInv_draw)
next
  case (GotHands results)
  assume "gameInv s"
  then show ?thesis using GotHands by (simp add: gotHands_def gameInv_def)
next
  case (TimerFires now k)
  assume inv: "gameInv s"
  have "gameInv (s\<lparr>timers := ts\<rparr>)" for ts
    using inv by (simp add: gameInv_def)
  then show ?thesis
    using TimerFires inv by (simp add: gameInv_runCallback)
qed

lemma gameInv_run: "gameInv s \<Longrightarrow> gameInv (run evs s)"
  by (induction evs arbitrary: s) (simp_all add: gameInv_step)

lemma gameInv_start: "gameInv (start rnd now)"
  by (simp add: start_def sketch_setup_def Let_def generateSequence_eq gameInv_def preload_def
      preloadLoop.simps numKeys_def initial_def)

lemma gameInv_reachable: "gameInv (run evs (start rnd now))"
  by (rule gameInv_run [OF gameInv_start])

section \<open>What one frame does\<close>

lemma whiteKeysLoop_eq:
  "whiteKeysLoop i s =
     concat (map (\<lambda>k. [Fill (keyColors s k), Stroke 0,
                         Rect (real k * whiteKeyWidth s) 0 (whiteKeyWidth s) (whiteKeyHeight s)])
               [i..<numKeys])"
proof (induction i s rule: whiteKeysLoop.induct)
  case (1 i s)
  show ?case
  proof (cases "i < numKeys")
    case True
    then show ?thesis
      using 1 by (subst whiteKeysLoop.simps) (simp add: upt_conv_Cons)
  next
    case False
    then show ?thesis
      by (subst whiteKeysLoop.simps) simp
  qed
qed

lemma blackKeysLoop_eq:
  "blackKeysLoop i s =
     concat (map (\<lambda>k. if k \<noteq> 2 \<and> k \<noteq> 6
                       then [Fill (Some (Gray 0)), Stroke 0,
                             Rect (real (k + 1) * whiteKeyWidth s - blackKeyWidth s / 2) 0
                               (blackKeyWidth s) (blackKeyHeight s)]
                       else [])
               [i..<numKeys - 1])"
proof (induction i s rule: blackKeysLoop.induct)
  case (1 i s)
  show ?case
  proof (cases "i < numKeys - 1")
    case True
    then show ?thesis
      using 1 by (subst blackKeysLoop.simps) (simp add: upt_conv_Cons)
  next
    case False
    then show ?thesis
      by (subst blackKeysLoop.simps) simp
  qed
qed

lemma NotePlay_notin_drawPiano: "NotePlay j \<notin> set (drawPiano s)"
  by (auto simp: drawPiano_def whiteKeysLoop_eq blackKeysLoop_eq split: if_splits)

lemma draw_press:
  assumes "NotePlay j \<in> set (fst (draw now s))"
  shows "message s = [] \<and> j < numKeys \<and> now - lastKeyPressTime s > debounceTime
         \<and> fst (handsLoop now (hands s) s) = [NotePlay j]
         \<and> snd (draw now s) = (acceptPress now j s)\<lparr>isKeyPressed := isKeyPressed (snd (draw now s))\<rparr>"
proof -
  have msg: "message s = []"
  proof (rule ccontr)
    assume "message s \<noteq> []"
    then have "NotePlay j \<notin> set (fst (draw now s))"
      by (simp add: draw_def displayMessage_def Let_def)
    with assms show False by simp
  qed
  let ?r = "handsLoop now (hands s) s"
  have mem: "NotePlay j \<in> set (fst ?r)"
    using assms msg NotePlay_notin_drawPiano [of j s] by (simp add: draw_def Let_def)
  have sd: "snd (draw now s) = snd ?r"
    using msg by (simp add: draw_def Let_def)
  have "frameRel now s ?r" by (rule frameRel_handsLoop)
  with mem have "j < numKeys \<and> fst ?r = [NotePlay j] \<and> now - lastKeyPressTime s > debounceTime
      \<and> snd ?r = (acceptPress now j s)\<lparr>isKeyPressed := isKeyPressed (snd ?r)\<rparr>"
    by (auto simp: frameRel_def)
  with msg sd show ?thesis by simp
qed

lemma acceptPress_mismatch:
  assumes "\<not> (currentNoteIndex s < length (gameSequence s)
              \<and> gameSequence s ! currentNoteIndex s = int j)"
  shows "acceptPress now j s =
           s\<lparr>isKeyPressed := (isKeyPressed s)(j \<mapsto> True), lastKeyPressTime := now,
             keyColors := (keyColors s)(j \<mapsto> RGB 0 0 255),
             sequenceLength := 1,
             gameSequence := [\<lfloor>randomSource s (randomCalls s)\<rfloor>],
             playerSequence := [], currentNoteIndex := 0, sequencePlaying := True,
             randomCalls := Suc (randomCalls s),
             message := ''Wrong Key!'',
             timers := timers s @ [(now + 500, RevertKeyColor j), (now + 2000, PlaySequence),
                                   (now + 1000, ClearMessage)]\<rparr>"
  using assms by (auto simp: acceptPress_def setTimeout_def Let_def checkLoss_eq)

lemma acceptPress_complete:
  assumes "currentNoteIndex s = length (playerSequence s)"
    and "playerSequence s @ [int j] = gameSequence s"
  shows "acceptPress now j s =
           s\<lparr>isKeyPressed := (isKeyPressed s)(j \<mapsto> True), lastKeyPressTime := now,
             keyColors := (keyColors s)(j \<mapsto> RGB 0 0 255),
             sequenceLength := Suc (sequenceLength s),
             gameSequence := map (\<lambda>k. \<lfloor>randomSource s (randomCalls s + k)\<rfloor>)
                               [0..<Suc (sequenceLength s)],
             playerSequence := [], currentNoteIndex := 0, sequencePlaying := True,
             randomCalls := randomCalls s + Suc (sequenceLength s),
             message := ''Correct! Level Up!'',
             timers := timers s @ [(now + 500, RevertKeyColor j), (now + 2000, PlaySequence),
                                   (now + 1000, ClearMessage)]\<rparr>"
proof -
  have len: "length (gameSequence s) = Suc (length (playerSequence s))"
    by (subst assms(2) [symmetric]) simp
  have nth: "gameSequence s ! length (playerSequence s) = int j"
    by (subst assms(2) [symmetric]) simp
  show ?thesis
    using assms len nth
    by (simp add: acceptPress_def setTimeout_def Let_def checkVictory_eq del: upt_Suc)
qed

section \<open>Evaluating the sketch on concrete inputs\<close>

lemma preload_initial:
  "preload (initial rnd) =
     (initial rnd)\<lparr>isKeyPressed := (\<lambda>i. if i < 8 then Some False else None),
                   keyColors := (\<lambda>i. if i < 8 then Some (Gray 255) else None)\<rparr>"
  by (simp add: preload_def preloadLoop.simps numKeys_def initial_def fun_eq_iff)

lemma start_eq:
  "start rnd now =
     \<lparr> hands = [], isKeyPressed = (\<lambda>i. if i < 8 then Some False else None),
       whiteKeyWidth = 80, whiteKeyHeight = 160, blackKeyWidth = 48, blackKeyHeight = 112,
       gameSequence = [\<lfloor>rnd 0\<rfloor>], playerSequence = [], currentNoteIndex = 0,
       sequencePlaying = True, keyColors = (\<lambda>i. if i < 8 then Some (Gray 255) else None),
       sequenceLength = 1, message = [], lastKeyPressTime = 0, a = 0, b = 0, c = 0,
       timers = [(now + 2000, PlaySequence)], randomSource = rnd, randomCalls = 1 \<rparr>"
  unfolding start_def preload_initial
  by (simp add: sketch_setup_def Let_def generateSequence_eq initial_def w_def h_def numKeys_def)

lemma keysLoop_unfold:
  "keysLoop now keypoint j s =
     (if j < numKeys
      then (case keyBody now keypoint j s of
              (e1, s1) \<Rightarrow> (case keysLoop now keypoint (Suc j) s1 of (e2, s2) \<Rightarrow> (e1 @ e2, s2)))
      else ([], s))"
  by (subst keysLoop.simps) (simp add: Let_def split: prod.splits)

lemmas frame_eval =
  keysLoop_unfold keyBody_eq inside_def w_def numKeys_def debounceTime_def eval_nat_numeral

lemma draw_fst_press:
  assumes "message s = []" and "fst (handsLoop now (hands s) s) = [NotePlay j]"
  shows "NotePlay j \<in> set (fst (draw now s))"
  using assms by (simp add: draw_def Let_def)

section \<open>The generated sequence\<close>

text \<open>
  Claim C2. Whatever the level \<open>L\<close> is when \<open>generateSequence\<close> is called (in
  particular for every \<open>L \<ge> 1\<close>), the new \<open>gameSequence\<close> has exactly \<open>L\<close>
  entries, every entry is an integer \<open>e\<close> with \<open>0 \<le> e < numKeys\<close>, \<open>playerSequence\<close> is
  empty and \<open>currentNoteIndex\<close> is 0. The hypothesis is the contract of p5's
  \<open>random(0, numKeys)\<close>: every value it returns is at least 0 and less than \<open>numKeys\<close>.
\<close>

theorem generateSequence_length_range:
  assumes "\<forall>n. 0 \<le> randomSource s n \<and> randomSource s n < real numKeys"
    and "sequenceLength s = L"
  shows "length (gameSequence (generateSequence now s)) = L
         \<and> (\<forall>e \<in> set (gameSequence (generateSequence now s)). 0 \<le> e \<and> e < int numKeys)
         \<and> playerSequence (generateSequence now s) = []
         \<and> currentNoteIndex (generateSequence now s) = 0"
proof -
  have "0 \<le> \<lfloor>randomSource s n\<rfloor> \<and> \<lfloor>randomSource s n\<rfloor> < int numKeys" for n
    using assms(1) by (simp add: floor_less_iff)
  then show ?thesis
    using assms(2) by (auto simp: generateSequence_eq)
qed

theorem generateSequence_length_range_witness:
  "(\<forall>n. 0 \<le> randomSource (initial (\<lambda>n. 7 / 2)\<lparr>sequenceLength := 2\<rparr>) n
        \<and> randomSource (initial (\<lambda>n. 7 / 2)\<lparr>sequenceLength := 2\<rparr>) n < real numKeys)
   \<and> gameSequence (generateSequence 0 (initial (\<lambda>n. 7 / 2)\<lparr>sequenceLength := 2\<rparr>)) = [3, 3]
   \<and> length (gameSequence (generateSequence 0 (initial (\<lambda>n. 7 / 2)\<lparr>sequenceLength := 2\<rparr>))) = 2
   \<and> playerSequence (generateSequence 0 (initial (\<lambda>n. 7 / 2)\<lparr>sequenceLength := 2\<rparr>)) = []
   \<and> currentNoteIndex (generateSequence 0 (initial (\<lambda>n. 7 / 2)\<lparr>sequenceLength := 2\<rparr>)) = 0"
proof -
  have hyp: "\<forall>n. 0 \<le> randomSource (initial (\<lambda>n. 7 / 2)\<lparr>sequenceLength := 2\<rparr>) n
                \<and> randomSource (initial (\<lambda>n. 7 / 2)\<lparr>sequenceLength := 2\<rparr>) n < real numKeys"
    by (simp add: initial_def numKeys_def)
  have len: "sequenceLength (initial (\<lambda>n. 7 / 2)\<lparr>sequenceLength := 2\<rparr>) = 2"
    by simp
  have "gameSequence (generateSequence 0 (initial (\<lambda>n. 7 / 2)\<lparr>sequenceLength := 2\<rparr>)) = [3, 3]"
    by (simp add: generateSequence_eq initial_def upt_rec)
  with hyp generateSequence_length_range [OF hyp len, of 0] show ?thesis
    by simp
qed

section \<open>The player's sequence\<close>

text \<open>
  Claim C1. In every state the game loop can reach from \<open>setup\<close> by frames, results
  of the hand tracker and timers, \<open>playerSequence\<close> is a prefix of \<open>gameSequence\<close>
  and not longer than it. And in any state \<open>s\<close>, when a frame accepts a press of key \<open>j\<close>
  (it plays the note of \<open>j\<close>) and \<open>j\<close> is not \<open>gameSequence[currentNoteIndex]\<close>, then
  after the frame the level is 1, \<open>playerSequence\<close> is empty, the cursor is 0 and
  \<open>gameSequence\<close> is a fresh sequence of one entry, the floor of the next value of
  \<open>random\<close>.
\<close>

theorem playerSequence_prefix_and_loss:
  "prefix (playerSequence (run evs (start rnd t0))) (gameSequence (run evs (start rnd t0)))
   \<and> length (playerSequence (run evs (start rnd t0))) \<le> length (gameSequence (run evs (start rnd t0)))
   \<and> (NotePlay j \<in> set (fst (draw now s))
        \<and> \<not> (currentNoteIndex s < length (gameSequence s)
               \<and> gameSequence s ! currentNoteIndex s = int j)
       \<longrightarrow> sequenceLength (snd (draw now s)) = 1
           \<and> playerSequence (snd (draw now s)) = []
           \<and> currentNoteIndex (snd (draw now s)) = 0
           \<and> gameSequence (snd (draw now s)) = [\<lfloor>randomSource s (randomCalls s)\<rfloor>]
           \<and> message (snd (draw now s)) = ''Wrong Key!'')"
proof -
  have inv: "gameInv (run evs (start rnd t0))" by (rule gameInv_reachable)
  have loss: "sequenceLength (snd (draw now s)) = 1
           \<and> playerSequence (snd (draw now s)) = []
           \<and> currentNoteIndex (snd (draw now s)) = 0
           \<and> gameSequence (snd (draw now s)) = [\<lfloor>randomSource s (randomCalls s)\<rfloor>]
           \<and> message (snd (draw now s)) = ''Wrong Key!''"
    if press: "NotePlay j \<in> set (fst (draw now s))"
      and wrong: "\<not> (currentNoteIndex s < length (gameSequence s)
               \<and> gameSequence s ! currentNoteIndex s = int j)"
  proof -
    obtain F where eq: "snd (draw now s) = (acceptPress now j s)\<lparr>isKeyPressed := F\<rparr>"
      using draw_press [OF press] by blast
    show ?thesis
      unfolding eq acceptPress_mismatch [OF wrong] by simp
  qed
  have "prefix (playerSequence (run evs (start rnd t0))) (gameSequence (run evs (start rnd t0)))"
    using inv by (simp add: gameInv_def)
  moreover have "length (playerSequence (run evs (start rnd t0)))
      \<le> length (gameSequence (run evs (start rnd t0)))"
    using inv by (simp add: gameInv_def)
  ultimately show ?thesis
    using loss by blast
qed

theorem playerSequence_prefix_and_loss_witness:
  "prefix (playerSequence (run [GotHands [Hand (Keypoint 200 50)]] (start (\<lambda>n. 7 / 2) 0)))
      (gameSequence (run [GotHands [Hand (Keypoint 200 50)]] (start (\<lambda>n. 7 / 2) 0)))
   \<and> gameSequence (run [GotHands [Hand (Keypoint 200 50)]] (start (\<lambda>n. 7 / 2) 0)) = [3]
   \<and> NotePlay 5 \<in> set (fst (draw 1000 (run [GotHands [Hand (Keypoint 200 50)]] (start (\<lambda>n. 7 / 2) 0))))
   \<and> sequenceLength (snd (draw 1000 (run [GotHands [Hand (Keypoint 200 50)]] (start (\<lambda>n. 7 / 2) 0)))) = 1
   \<and> playerSequence (snd (draw 1000 (run [GotHands [Hand (Keypoint 200 50)]] (start (\<lambda>n. 7 / 2) 0)))) = []
   \<and> currentNoteIndex (snd (draw 1000 (run [GotHands [Hand (Keypoint 200 50)]] (start (\<lambda>n. 7 / 2) 0)))) = 0
   \<and> gameSequence (snd (draw 1000 (run [GotHands [Hand (Keypoint 200 50)]] (start (\<lambda>n. 7 / 2) 0)))) = [3]"
proof -
  let ?s = "run [GotHands [Hand (Keypoint 200 50)]] (start (\<lambda>n. 7 / 2) 0)"
  have s: "?s = (start (\<lambda>n. 7 / 2) 0)\<lparr>hands := [Hand (Keypoint 200 50)]\<rparr>"
    by (simp add: gotHands_def)
  have gs: "gameSequence ?s = [3]"
    unfolding s by (simp add: start_eq)
  have press: "NotePlay 5 \<in> set (fst (draw 1000 ?s))"
    by (rule draw_fst_press) (simp_all add: start_eq gotHands_def frame_eval)
  have wrong: "\<not> (currentNoteIndex ?s < length (gameSequence ?s)
               \<and> gameSequence ?s ! currentNoteIndex ?s = int 5)"
    unfolding s by (simp add: start_eq)
  have rnd: "\<lfloor>randomSource ?s (randomCalls ?s)\<rfloor> = 3"
    unfolding s by (simp add: start_eq)
  from playerSequence_prefix_and_loss [of "[GotHands [Hand (Keypoint 200 50)]]" "\<lambda>n. 7 / 2" 0 5 1000 ?s]
    press wrong gs rnd
  show ?thesis by simp
qed

section \<open>Completing the sequence\<close>

text \<open>
  Claim C3. In a state the game loop can reach, with \<open>gameSequence\<close> of length \<open>L\<close>: when
  a frame accepts a press of key \<open>j\<close> and with it \<open>playerSequence\<close> becomes the whole of
  \<open>gameSequence\<close> (it reaches length \<open>L\<close> with every entry matching), then the level,
  which was \<open>L\<close>, is \<open>L + 1\<close> after the frame, the new \<open>gameSequence\<close> has \<open>L + 1\<close>
  entries, \<open>playerSequence\<close> is empty and the cursor is 0.
\<close>

theorem victory_advances_level:
  assumes "NotePlay j \<in> set (fst (draw now (run evs (start rnd t0))))"
    and "playerSequence (run evs (start rnd t0)) @ [int j] = gameSequence (run evs (start rnd t0))"
    and "length (gameSequence (run evs (start rnd t0))) = L"
  shows "sequenceLength (run evs (start rnd t0)) = L
         \<and> sequenceLength (snd (draw now (run evs (start rnd t0)))) = L + 1
         \<and> length (gameSequence (snd (draw now (run evs (start rnd t0))))) = L + 1
         \<and> playerSequence (snd (draw now (run evs (start rnd t0)))) = []
         \<and> currentNoteIndex (snd (draw now (run evs (start rnd t0)))) = 0"
proof -
  let ?s = "run evs (start rnd t0)"
  have inv: "gameInv ?s" by (rule gameInv_reachable)
  then have idx: "currentNoteIndex ?s = length (playerSequence ?s)"
    and lvl: "sequenceLength ?s = L"
    using assms(3) by (simp_all add: gameInv_def)
  obtain F where eq: "snd (draw now ?s) = (acceptPress now j ?s)\<lparr>isKeyPressed := F\<rparr>"
    using draw_press [OF assms(1)] by blast
  show ?thesis
    unfolding eq acceptPress_complete [OF idx assms(2)] using lvl by simp
qed

theorem victory_advances_level_witness:
  "NotePlay 3 \<in> set (fst (draw 1000 (run [GotHands [Hand (Keypoint 360 50)]] (start (\<lambda>n. 7 / 2) 0))))
   \<and> playerSequence (run [GotHands [Hand (Keypoint 360 50)]] (start (\<lambda>n. 7 / 2) 0)) @ [int 3]
       = gameSequence (run [GotHands [Hand (Keypoint 360 50)]] (start (\<lambda>n. 7 / 2) 0))
   \<and> length (gameSequence (run [GotHands [Hand (Keypoint 360 50)]] (start (\<lambda>n. 7 / 2) 0))) = 1
   \<and> sequenceLength (snd (draw 1000 (run [GotHands [Hand (Keypoint 360 50)]] (start (\<lambda>n. 7 / 2) 0)))) = 2
   \<and> length (gameSequence (snd (draw 1000 (run [GotHands [Hand (Keypoint 360 50)]] (start (\<lambda>n. 7 / 2) 0))))) = 2
   \<and> playerSequence (snd (draw 1000 (run [GotHands [Hand (Keypoint 360 50)]] (start (\<lambda>n. 7 / 2) 0)))) = []
   \<and> currentNoteIndex (snd (draw 1000 (run [GotHands [Hand (Keypoint 360 50)]] (start (\<lambda>n. 7 / 2) 0)))) = 0"
proof -
  let ?evs = "[GotHands [Hand (Keypoint 360 50)]]"
  let ?s = "run ?evs (start (\<lambda>n. 7 / 2) 0)"
  have press: "NotePlay 3 \<in> set (fst (draw 1000 ?s))"
    by (rule draw_fst_press) (simp_all add: start_eq gotHands_def frame_eval)
  have full: "playerSequence ?s @ [int 3] = gameSequence ?s"
    by (simp add: start_eq gotHands_def)
  have len: "length (gameSequence ?s) = 1"
    by (simp add: start_eq gotHands_def)
  from victory_advances_level [OF press full len] press full len
  show ?thesis by simp
qed

section \<open>The length of the game sequence\<close>

text \<open>
  Claim C7. In every state the game loop can reach from \<open>setup\<close>, the length of
  \<open>gameSequence\<close> is the level \<open>sequenceLength\<close>. \<open>generateSequence\<close> and
  \<open>checkLoss\<close> establish the equality from any state, and \<open>checkVictory\<close> keeps it.
\<close>

theorem gameSequence_length_is_level:
  "length (gameSequence (run evs (start rnd t0))) = sequenceLength (run evs (start rnd t0))
   \<and> length (gameSequence (generateSequence now s)) = sequenceLength (generateSequence now s)
   \<and> (length (gameSequence s) = sequenceLength s
       \<longrightarrow> length (gameSequence (checkVictory now s)) = sequenceLength (checkVictory now s))
   \<and> length (gameSequence (checkLoss now s)) = sequenceLength (checkLoss now s)"
proof -
  have "gameInv (run evs (start rnd t0))" by (rule gameInv_reachable)
  then have "length (gameSequence (run evs (start rnd t0))) = sequenceLength (run evs (start rnd t0))"
    by (simp add: gameInv_def)
  moreover have "length (gameSequence (generateSequence now s)) = sequenceLength (generateSequence now s)"
    by (simp add: generateSequence_eq)
  moreover have "length (gameSequence (checkVictory now s)) = sequenceLength (checkVictory now s)"
    if "length (gameSequence s) = sequenceLength s"
    using that by (simp add: checkVictory_eq del: upt_Suc)
  moreover have "length (gameSequence (checkLoss now s)) = sequenceLength (checkLoss now s)"
    by (simp add: checkLoss_eq)
  ultimately show ?thesis by blast
qed

theorem gameSequence_length_is_level_witness:
  "length (gameSequence (run [GotHands [Hand (Keypoint 360 50)], DrawFrame 1000] (start (\<lambda>n. 7 / 2) 0))) = 2
   \<and> sequenceLength (run [GotHands [Hand (Keypoint 360 50)], DrawFrame 1000] (start (\<lambda>n. 7 / 2) 0)) = 2
   \<and> length (gameSequence ((start (\<lambda>n. 7 / 2) 0)\<lparr>playerSequence := [3]\<rparr>))
       = sequenceLength ((start (\<lambda>n. 7 / 2) 0)\<lparr>playerSequence := [3]\<rparr>)
   \<and> length (gameSequence (checkVictory 5 ((start (\<lambda>n. 7 / 2) 0)\<lparr>playerSequence := [3]\<rparr>))) = 2
   \<and> sequenceLength (checkVictory 5 ((start (\<lambda>n. 7 / 2) 0)\<lparr>playerSequence := [3]\<rparr>)) = 2"
proof -
  let ?evs = "[GotHands [Hand (Keypoint 360 50)], DrawFrame 1000]"
  let ?s = "(start (\<lambda>n. 7 / 2) 0)\<lparr>playerSequence := [3]\<rparr>"
  have lvl: "sequenceLength (run ?evs (start (\<lambda>n. 7 / 2) 0)) = 2"
    by (simp add: start_eq gotHands_def draw_def frame_eval acceptPress_def setTimeout_def
        checkVictory_eq Let_def)
  have pre: "length (gameSequence ?s) = sequenceLength ?s"
    by (simp add: start_eq)
  have v: "sequenceLength (checkVictory 5 ?s) = 2"
    by (simp add: start_eq checkVictory_eq)
  from gameSequence_length_is_level [of ?evs "\<lambda>n. 7 / 2" 0 5 ?s] lvl pre v
  show ?thesis by simp
qed

section \<open>The match cursor\<close>

lemma keyBody_cursor:
  assumes "currentNoteIndex s = length (playerSequence s)"
  shows "currentNoteIndex (snd (keyBody now keypoint j s))
           = length (playerSequence (snd (keyBody now keypoint j s)))"
  using assms
  by (simp add: keyBody_eq acceptPress_def setTimeout_def Let_def checkVictory_eq checkLoss_eq
      del: upt_Suc)

text \<open>
  Claim C10. In every state the game loop can reach from \<open>setup\<close>,
  \<open>currentNoteIndex\<close> is the length of \<open>playerSequence\<close>. The equality holds for the
  initial globals, \<open>generateSequence\<close> establishes it, and the body of the key loop keeps
  it, whether it accepts a press (correct or not) or none. So when the full length is
  reached on a correct press in a reachable state, the two sequences that
  \<open>checkVictory\<close> compares are equal.
\<close>

theorem cursor_is_player_length:
  "currentNoteIndex (run evs (start rnd t0)) = length (playerSequence (run evs (start rnd t0)))
   \<and> currentNoteIndex (initial rnd) = length (playerSequence (initial rnd))
   \<and> currentNoteIndex (generateSequence now s) = length (playerSequence (generateSequence now s))
   \<and> (currentNoteIndex s = length (playerSequence s)
       \<longrightarrow> currentNoteIndex (snd (keyBody now keypoint j s))
             = length (playerSequence (snd (keyBody now keypoint j s))))
   \<and> (gameSequence (run evs (start rnd t0)) ! currentNoteIndex (run evs (start rnd t0)) = int j
       \<and> Suc (length (playerSequence (run evs (start rnd t0))))
           = length (gameSequence (run evs (start rnd t0)))
       \<longrightarrow> playerSequence (run evs (start rnd t0)) @ [int j] = gameSequence (run evs (start rnd t0)))"
proof -
  let ?S = "run evs (start rnd t0)"
  have inv: "gameInv ?S" by (rule gameInv_reachable)
  then have idx: "currentNoteIndex ?S = length (playerSequence ?S)"
    and pre: "prefix (playerSequence ?S) (gameSequence ?S)"
    and lt: "length (playerSequence ?S) < length (gameSequence ?S)"
    by (simp_all add: gameInv_def)
  have full: "playerSequence ?S @ [int j] = gameSequence ?S"
    if nth: "gameSequence ?S ! currentNoteIndex ?S = int j"
      and len: "Suc (length (playerSequence ?S)) = length (gameSequence ?S)"
  proof -
    have "prefix (playerSequence ?S @ [int j]) (gameSequence ?S)"
      using prefix_snoc_nth [OF pre lt] nth idx by simp
    then show ?thesis
      using len by (intro prefix_same_length) simp_all
  qed
  have init: "currentNoteIndex (initial rnd) = length (playerSequence (initial rnd))"
    by (simp add: initial_def)
  have gen: "currentNoteIndex (generateSequence now s) = length (playerSequence (generateSequence now s))"
    by (simp add: generateSequence_eq)
  from idx init gen full keyBody_cursor [of s now keypoint j] show ?thesis
    by blast
qed

theorem cursor_is_player_length_witness:
  "currentNoteIndex (run [GotHands [Hand (Keypoint 360 50)], DrawFrame 1000] (start (\<lambda>n. 7 / 2) 0)) = 0
   \<and> playerSequence (run [GotHands [Hand (Keypoint 360 50)], DrawFrame 1000] (start (\<lambda>n. 7 / 2) 0)) = []
   \<and> currentNoteIndex
        (snd (keyBody 1000 (Keypoint 360 50) 3 ((start (\<lambda>n. 7 / 2) 0)\<lparr>sequenceLength := 2, gameSequence := [3, 3]\<rparr>))) = 1
   \<and> playerSequence
        (snd (keyBody 1000 (Keypoint 360 50) 3 ((start (\<lambda>n. 7 / 2) 0)\<lparr>sequenceLength := 2, gameSequence := [3, 3]\<rparr>))) = [3]
   \<and> playerSequence (start (\<lambda>n. 7 / 2) 0) @ [int 3] = gameSequence (start (\<lambda>n. 7 / 2) 0)"
proof -
  let ?evs = "[GotHands [Hand (Keypoint 360 50)], DrawFrame 1000]"
  let ?s = "(start (\<lambda>n. 7 / 2) 0)\<lparr>sequenceLength := 2, gameSequence := [3, 3]\<rparr>"
  have ps: "playerSequence (run ?evs (start (\<lambda>n. 7 / 2) 0)) = []"
    by (simp add: start_eq gotHands_def draw_def frame_eval acceptPress_def setTimeout_def
        checkVictory_eq Let_def)
  have pre: "currentNoteIndex ?s = length (playerSequence ?s)"
    by (simp add: start_eq)
  have kb: "playerSequence (snd (keyBody 1000 (Keypoint 360 50) 3 ?s)) = [3]"
    by (simp add: start_eq frame_eval acceptPress_def setTimeout_def Let_def)
  have nth: "gameSequence (run [] (start (\<lambda>n. 7 / 2) 0)) ! currentNoteIndex (run [] (start (\<lambda>n. 7 / 2) 0)) = int 3"
    by (simp add: start_eq)
  have len: "Suc (length (playerSequence (run [] (start (\<lambda>n. 7 / 2) 0))))
      = length (gameSequence (run [] (start (\<lambda>n. 7 / 2) 0)))"
    by (simp add: start_eq)
  from cursor_is_player_length [where evs = ?evs and rnd = "\<lambda>n. 7 / 2" and ?t0.0 = 0
      and s = ?s and now = 1000 and keypoint = "Keypoint 360 50" and j = 3] ps pre kb
  have a1: "currentNoteIndex (run ?evs (start (\<lambda>n. 7 / 2) 0)) = 0
      \<and> currentNoteIndex (snd (keyBody 1000 (Keypoint 360 50) 3 ?s)) = 1"
    by simp
  from cursor_is_player_length [where evs = "[]" and rnd = "\<lambda>n. 7 / 2" and ?t0.0 = 0
      and j = 3] nth len
  have a2: "playerSequence (start (\<lambda>n. 7 / 2) 0) @ [int 3] = gameSequence (start (\<lambda>n. 7 / 2) 0)"
    by simp
  from a1 a2 ps kb show ?thesis by simp
qed

section \<open>Debounce\<close>

lemma notePlays_append [simp]: "notePlays (xs @ ys) = notePlays xs @ notePlays ys"
  by (induction xs rule: notePlays.induct) simp_all

lemma notePlays_drawPiano [simp]: "notePlays (drawPiano s) = []"
proof -
  have w: "notePlays (concat (map (\<lambda>k. [Fill (f k), Stroke 0, Rect (g k) 0 u v]) ks)) = []"
    for f g u v and ks :: "nat list"
    by (induction ks) simp_all
  have bk: "notePlays (concat (map (\<lambda>k. if k \<noteq> 2 \<and> k \<noteq> 6 then [Fill f, Stroke 0, Rect (g k) 0 u v] else []) ks)) = []"
    for f g u v and ks :: "nat list"
    by (induction ks) simp_all
  show ?thesis
    by (simp add: drawPiano_def whiteKeysLoop_eq blackKeysLoop_eq w bk)
qed

lemma draw_presses:
  "(notePlays (fst (draw now s)) = [] \<and> lastKeyPressTime (snd (draw now s)) = lastKeyPressTime s)
   \<or> (\<exists>j. notePlays (fst (draw now s)) = [j] \<and> now - lastKeyPressTime s > debounceTime
          \<and> lastKeyPressTime (snd (draw now s)) = now)"
proof (cases "message s = []")
  case False
  then show ?thesis
    by (simp add: draw_def displayMessage_def Let_def)
next
  case True
  let ?r = "handsLoop now (hands s) s"
  have np: "notePlays (fst (draw now s)) = notePlays (fst ?r)"
    using True by (simp add: draw_def Let_def)
  have sd: "snd (draw now s) = snd ?r"
    using True by (simp add: draw_def Let_def)
  have "frameRel now s ?r" by (rule frameRel_handsLoop)
  then consider
      (quiet) "fst ?r = []" "snd ?r = s\<lparr>isKeyPressed := isKeyPressed (snd ?r)\<rparr>"
    | (press) j where "fst ?r = [NotePlay j]" "now - lastKeyPressTime s > debounceTime"
        "snd ?r = (acceptPress now j s)\<lparr>isKeyPressed := isKeyPressed (snd ?r)\<rparr>"
    by (auto simp: frameRel_def)
  then show ?thesis
  proof cases
    case quiet
    have "lastKeyPressTime (snd ?r) = lastKeyPressTime s"
      by (subst quiet(2)) simp
    with quiet np sd show ?thesis by simp
  next
    case press
    have "lastKeyPressTime (snd ?r) = now"
      by (subst press(3)) simp
    with press np sd show ?thesis by simp
  qed
qed

lemma runCallback_lastKeyPressTime [simp]:
  "lastKeyPressTime (snd (runCallback now cb s)) = lastKeyPressTime s"
  by (cases cb) (simp_all add: playSequence_eq setTimeout_def)

lemma timer_lastKeyPressTime [simp]:
  "lastKeyPressTime (snd (step (TimerFires now k) s)) = lastKeyPressTime s"
  by simp

lemma separated_presses: "separated (lastKeyPressTime s) (presses evs s)"
proof (induction evs arbitrary: s)
  case Nil
  show ?case by simp
next
  case (Cons ev evs)
  show ?case
  proof (cases ev)
    case (DrawFrame now)
    from draw_presses [of now s] show ?thesis
    proof
      assume "notePlays (fst (draw now s)) = [] \<and> lastKeyPressTime (snd (draw now s)) = lastKeyPressTime s"
      then show ?thesis
        using Cons [of "snd (draw now s)"] DrawFrame by simp
    next
      assume "\<exists>j. notePlays (fst (draw now s)) = [j] \<and> now - lastKeyPressTime s > debounceTime
          \<and> lastKeyPressTime (snd (draw now s)) = now"
      then show ?thesis
        using Cons [of "snd (draw now s)"] DrawFrame by auto
    qed
  next
    case (GotHands results)
    then show ?thesis
      using Cons [of "gotHands results s"] by (simp add: gotHands_def)
  next
    case (TimerFires now k)
    have "separated (lastKeyPressTime (snd (step (TimerFires now k) s)))
        (presses evs (snd (step (TimerFires now k) s)))"
      by (rule Cons)
    then have "separated (lastKeyPressTime s) (presses evs (snd (step (TimerFires now k) s)))"
      by (simp only: timer_lastKeyPressTime)
    then show ?thesis
      using TimerFires by (simp only: presses.simps)
  qed
qed

lemma separated_nth:
  assumes "separated t ps" and "k < length ps"
  shows "fst (ps ! k) - t > debounceTime"
  using assms
proof (induction ps arbitrary: t k)
  case Nil
  then show ?case by simp
next
  case (Cons p ps)
  show ?case
  proof (cases k)
    case 0
    with Cons.prems show ?thesis by simp
  next
    case (Suc k')
    with Cons.prems have "fst (ps ! k') - fst p > debounceTime"
      by (intro Cons.IH) simp_all
    moreover from Cons.prems have "fst p - t > debounceTime" by simp
    ultimately show ?thesis
      using Suc by (simp add: debounceTime_def)
  qed
qed

lemma separated_pair:
  assumes "separated t ps" and "i < k" and "k < length ps"
  shows "fst (ps ! k) - fst (ps ! i) > debounceTime"
  using assms
proof (induction ps arbitrary: t i k)
  case Nil
  then show ?case by simp
next
  case (Cons p ps)
  obtain k' where k: "k = Suc k'" using Cons.prems(2) by (cases k) simp_all
  show ?case
  proof (cases i)
    case 0
    have "fst (ps ! k') - fst p > debounceTime"
      using Cons.prems k by (intro separated_nth) simp_all
    with 0 k show ?thesis by simp
  next
    case (Suc i')
    have "fst (ps ! k') - fst (ps ! i') > debounceTime"
      using Cons.prems k Suc by (intro Cons.IH [of "fst p"]) simp_all
    with Suc k show ?thesis by simp
  qed
qed

lemma presses_demo:
  "presses [DrawFrame 1000, GotHands [Hand (Keypoint 200 50)], DrawFrame 1300, DrawFrame 1600]
     ((start (\<lambda>n. 7 / 2) 0)\<lparr>sequenceLength := 2, gameSequence := [3, 3],
                               hands := [Hand (Keypoint 360 50)]\<rparr>)
   = [(1000, 3), (1600, 5)]"
  by (simp add: start_eq gotHands_def draw_def frame_eval acceptPress_def setTimeout_def
      checkLoss_eq Let_def)

text \<open>
  Claim C5. In every run, from any state, any two presses that the frames accept are more
  than \<open>debounceTime\<close> (500 ms) apart, whatever their keys are: of two fingertip
  containments within 500 ms of each other, on the same key or on different keys, at
  most one is accepted. The timer \<open>lastKeyPressTime\<close> is one global, not one per key.
\<close>

theorem debounce_separates_presses:
  assumes "i < k" and "k < length (presses evs s)"
  shows "fst (presses evs s ! k) - fst (presses evs s ! i) > debounceTime"
  using separated_pair [OF separated_presses assms] .

theorem debounce_separates_presses_witness:
  "presses [DrawFrame 1000, GotHands [Hand (Keypoint 200 50)], DrawFrame 1300, DrawFrame 1600]
     ((start (\<lambda>n. 7 / 2) 0)\<lparr>sequenceLength := 2, gameSequence := [3, 3],
                               hands := [Hand (Keypoint 360 50)]\<rparr>)
   = [(1000, 3), (1600, 5)]
   \<and> fst (presses [DrawFrame 1000, GotHands [Hand (Keypoint 200 50)], DrawFrame 1300, DrawFrame 1600]
           ((start (\<lambda>n. 7 / 2) 0)\<lparr>sequenceLength := 2, gameSequence := [3, 3],
                                     hands := [Hand (Keypoint 360 50)]\<rparr>) ! 1)
     - fst (presses [DrawFrame 1000, GotHands [Hand (Keypoint 200 50)], DrawFrame 1300, DrawFrame 1600]
           ((start (\<lambda>n. 7 / 2) 0)\<lparr>sequenceLength := 2, gameSequence := [3, 3],
                                     hands := [Hand (Keypoint 360 50)]\<rparr>) ! 0)
     > debounceTime"
proof -
  let ?evs = "[DrawFrame 1000, GotHands [Hand (Keypoint 200 50)], DrawFrame 1300, DrawFrame 1600]"
  let ?s = "(start (\<lambda>n. 7 / 2) 0)\<lparr>sequenceLength := 2, gameSequence := [3, 3],
                                     hands := [Hand (Keypoint 360 50)]\<rparr>"
  have len: "1 < length (presses ?evs ?s)"
    by (simp only: presses_demo) simp
  have "fst (presses ?evs ?s ! 1) - fst (presses ?evs ?s ! 0) > debounceTime"
    using debounce_separates_presses [of 0 1 ?evs ?s] len by simp
  then show ?thesis
    using presses_demo by simp
qed

section \<open>Frames while a message is shown\<close>

lemma runCallback_message:
  "cb \<noteq> ClearMessage \<Longrightarrow> message (snd (runCallback now cb s)) = message s"
  by (cases cb) (simp_all add: playSequence_eq setTimeout_def)

lemma wrong_key_state:
  "run [GotHands [Hand (Keypoint 200 50)], DrawFrame 1000] (start (\<lambda>n. 7 / 2) 0) =
     \<lparr> hands = [Hand (Keypoint 200 50)],
       isKeyPressed = (\<lambda>i. if i < 8 then Some (i = 5) else None),
       whiteKeyWidth = 80, whiteKeyHeight = 160, blackKeyWidth = 48, blackKeyHeight = 112,
       gameSequence = [3], playerSequence = [], currentNoteIndex = 0,
       sequencePlaying = True,
       keyColors = (\<lambda>i. if i < 8 then Some (if i = 5 then RGB 0 0 255 else Gray 255) else None),
       sequenceLength = 1, message = ''Wrong Key!'', lastKeyPressTime = 1000,
       a = 0, b = 0, c = 0,
       timers = [(2000, PlaySequence), (1500, RevertKeyColor 5), (3000, PlaySequence),
                 (2000, ClearMessage)],
       randomSource = (\<lambda>n. 7 / 2), randomCalls = 2 \<rparr>"
  by (simp add: start_eq gotHands_def draw_def frame_eval acceptPress_def setTimeout_def
      checkLoss_eq Let_def fun_eq_iff)

text \<open>
  Claim C6. In a frame that starts with a non-empty \<open>message\<close>, \<open>draw\<close> clears the
  canvas and draws the message, centred, in green for the level-up message and in red
  otherwise, and nothing else: no camera image, no piano, no note played, no change of
  the state (the colour globals \<open>a\<close> and \<open>b\<close> are put back to 0). The message is still
  there after the frame, and the only step of the event loop that changes it is a due
  \<open>ClearMessage\<close> timer, which empties it.
\<close>

theorem message_frame_shows_only_message:
  assumes "message s \<noteq> []"
  shows "draw now s =
           ([Background 0, TextSize 30,
             Fill (Some (if message s = ''Correct! Level Up!''
                         then RGB (a s) 255 (c s) else RGB 255 (b s) (c s))),
             TextAlign CENTER CENTER, Text (Literal (message s)) (w / 2) (h / 2)],
            s\<lparr>a := 0, b := 0\<rparr>)
         \<and> message (snd (draw now s)) = message s
         \<and> (message (snd (step ev s)) = message s
            \<or> (\<exists>t k. ev = TimerFires t k \<and> k < length (timers s) \<and> fst (timers s ! k) \<le> t
                   \<and> snd (timers s ! k) = ClearMessage \<and> message (snd (step ev s)) = []))"
proof -
  have d: "draw now s =
           ([Background 0, TextSize 30,
             Fill (Some (if message s = ''Correct! Level Up!''
                         then RGB (a s) 255 (c s) else RGB 255 (b s) (c s))),
             TextAlign CENTER CENTER, Text (Literal (message s)) (w / 2) (h / 2)],
            s\<lparr>a := 0, b := 0\<rparr>)" for now
    using assms by (simp add: draw_def displayMessage_def Let_def)
  have m: "message (snd (draw now s)) = message s" for now
    by (simp add: d)
  have e: "message (snd (step ev s)) = message s
            \<or> (\<exists>t k. ev = TimerFires t k \<and> k < length (timers s) \<and> fst (timers s ! k) \<le> t
                   \<and> snd (timers s ! k) = ClearMessage \<and> message (snd (step ev s)) = [])"
  proof (cases ev)
    case (DrawFrame t)
    then show ?thesis using m by simp
  next
    case (GotHands results)
    then show ?thesis by (simp add: gotHands_def)
  next
    case (TimerFires t k)
    show ?thesis
    proof (cases "k < length (timers s) \<and> fst (timers s ! k) \<le> t")
      case False
      then show ?thesis using TimerFires by auto
    next
      case due: True
      show ?thesis
      proof (cases "snd (timers s ! k) = ClearMessage")
        case True
        then show ?thesis using TimerFires due by simp
      next
        case False
        then show ?thesis using TimerFires due by (simp add: runCallback_message)
      qed
    qed
  qed
  from d m e show ?thesis by blast
qed

theorem message_frame_shows_only_message_witness:
  "message (run [GotHands [Hand (Keypoint 200 50)], DrawFrame 1000] (start (\<lambda>n. 7 / 2) 0)) = ''Wrong Key!''
   \<and> draw 1016 (run [GotHands [Hand (Keypoint 200 50)], DrawFrame 1000] (start (\<lambda>n. 7 / 2) 0)) =
       ([Background 0, TextSize 30, Fill (Some (RGB 255 0 0)), TextAlign CENTER CENTER,
         Text (Literal ''Wrong Key!'') 320 240],
        run [GotHands [Hand (Keypoint 200 50)], DrawFrame 1000] (start (\<lambda>n. 7 / 2) 0))
   \<and> message (snd (step (TimerFires 2000 3)
        (run [GotHands [Hand (Keypoint 200 50)], DrawFrame 1000] (start (\<lambda>n. 7 / 2) 0)))) = []"
proof -
  let ?S = "run [GotHands [Hand (Keypoint 200 50)], DrawFrame 1000] (start (\<lambda>n. 7 / 2) 0)"
  have msg: "message ?S = ''Wrong Key!''"
    by (simp only: wrong_key_state) simp
  then have hyp: "message ?S \<noteq> []" by simp
  have same: "?S\<lparr>a := 0, b := 0\<rparr> = ?S"
    by (simp only: wrong_key_state) simp
  have cols: "a ?S = 0" "b ?S = 0" "c ?S = 0"
    by (simp_all only: wrong_key_state) simp_all
  have clear: "message (snd (step (TimerFires 2000 3) ?S)) = []"
    by (simp only: wrong_key_state) simp
  from message_frame_shows_only_message [OF hyp, of 1016 "TimerFires 2000 3"]
  have "draw 1016 ?S =
       ([Background 0, TextSize 30, Fill (Some (RGB 255 0 0)), TextAlign CENTER CENTER,
         Text (Literal ''Wrong Key!'') 320 240], ?S)"
    by (simp add: msg same cols w_def h_def del: run.simps)
  with msg clear show ?thesis by (simp del: run.simps step.simps)
qed

section \<open>The replay\<close>

text \<open>
  Claim C8. \<open>generateSequence\<close>, called at time \<open>now\<close>, adds one timer to the queue:
  \<open>playSequence\<close>, due at \<open>now + 2000\<close>. The timer fires once, not before it is due, and
  leaves the queue. \<open>playSequence\<close>, running at time \<open>t\<close>, schedules the notes of
  \<open>gameSequence\<close> in their order, note \<open>i\<close> at \<open>t + 500 i\<close>, and after them the end of the
  replay. A note \<open>n\<close> of the keyboard, when its timer runs, plays its clip, turns its key
  blue and schedules 500 ms later the timer that turns the key white again.
\<close>

theorem replay_schedule:
  "timers (generateSequence now s) = timers s @ [(now + 2000, PlaySequence)]
   \<and> step (TimerFires t (length (timers s))) (generateSequence now s)
       = (if now + 2000 \<le> t then ([], playSequence t ((generateSequence now s)\<lparr>timers := timers s\<rparr>))
          else ([], generateSequence now s))
   \<and> timers (playSequence t s) =
        timers s
        @ map (\<lambda>i. (t + real i * 500, ReplayNote (gameSequence s ! i))) [0..<length (gameSequence s)]
        @ [(t + real (length (gameSequence s)) * 500, EndSequence)]
   \<and> (0 \<le> n \<and> n < int numKeys \<longrightarrow>
        runCallback t (ReplayNote n) s =
          ([NotePlay (nat n)],
           s\<lparr>keyColors := (keyColors s)(nat n \<mapsto> RGB 0 0 255),
             timers := timers s @ [(t + 500, RevertNoteColor n)]\<rparr>)
        \<and> runCallback t (RevertNoteColor n) s
            = ([], s\<lparr>keyColors := (keyColors s)(nat n \<mapsto> Gray 255)\<rparr>))"
proof -
  have g: "timers (generateSequence now s) = timers s @ [(now + 2000, PlaySequence)]"
    by (simp add: generateSequence_eq)
  have f: "step (TimerFires t (length (timers s))) (generateSequence now s)
       = (if now + 2000 \<le> t then ([], playSequence t ((generateSequence now s)\<lparr>timers := timers s\<rparr>))
          else ([], generateSequence now s))"
    by (simp add: g)
  have p: "timers (playSequence t s) =
        timers s
        @ map (\<lambda>i. (t + real i * 500, ReplayNote (gameSequence s ! i))) [0..<length (gameSequence s)]
        @ [(t + real (length (gameSequence s)) * 500, EndSequence)]"
    by (simp add: playSequence_eq)
  have r: "runCallback t (ReplayNote n) s =
          ([NotePlay (nat n)],
           s\<lparr>keyColors := (keyColors s)(nat n \<mapsto> RGB 0 0 255),
             timers := timers s @ [(t + 500, RevertNoteColor n)]\<rparr>)
        \<and> runCallback t (RevertNoteColor n) s
            = ([], s\<lparr>keyColors := (keyColors s)(nat n \<mapsto> Gray 255)\<rparr>)"
    if "0 \<le> n \<and> n < int numKeys"
    using that by (simp add: setTimeout_def)
  from g f p r show ?thesis by blast
qed

theorem replay_schedule_witness:
  "timers (playSequence 2000 ((start (\<lambda>n. 7 / 2) 0)\<lparr>gameSequence := [3, 1, 4], timers := []\<rparr>))
     = [(2000, ReplayNote 3), (2500, ReplayNote 1), (3000, ReplayNote 4), (3500, EndSequence)]
   \<and> fst (runCallback 2500 (ReplayNote 1) (start (\<lambda>n. 7 / 2) 0)) = [NotePlay 1]
   \<and> keyColors (snd (runCallback 2500 (ReplayNote 1) (start (\<lambda>n. 7 / 2) 0))) 1 = Some (RGB 0 0 255)
   \<and> timers (snd (runCallback 2500 (ReplayNote 1) (start (\<lambda>n. 7 / 2) 0)))
       = [(2000, PlaySequence), (3000, RevertNoteColor 1)]
   \<and> keyColors (snd (runCallback 3000 (RevertNoteColor 1) (start (\<lambda>n. 7 / 2) 0))) 1 = Some (Gray 255)"
proof -
  let ?s = "(start (\<lambda>n. 7 / 2) 0)\<lparr>gameSequence := [3, 1, 4], timers := []\<rparr>"
  have rng: "0 \<le> (1::int) \<and> (1::int) < int numKeys"
    by (simp add: numKeys_def)
  from replay_schedule [where s = ?s and t = 2000]
  have p: "timers (playSequence 2000 ?s)
     = [(2000, ReplayNote 3), (2500, ReplayNote 1), (3000, ReplayNote 4), (3500, EndSequence)]"
    by (simp add: start_eq upt_rec)
  from replay_schedule [where s = "start (\<lambda>n. 7 / 2) 0" and t = 2500 and n = 1] rng
  have r: "runCallback 2500 (ReplayNote 1) (start (\<lambda>n. 7 / 2) 0) =
          ([NotePlay (nat 1)],
           (start (\<lambda>n. 7 / 2) 0)\<lparr>keyColors := (keyColors (start (\<lambda>n. 7 / 2) 0))(nat 1 \<mapsto> RGB 0 0 255),
             timers := timers (start (\<lambda>n. 7 / 2) 0) @ [(2500 + 500, RevertNoteColor 1)]\<rparr>)"
    by blast
  from replay_schedule [where s = "start (\<lambda>n. 7 / 2) 0" and t = 3000 and n = 1] rng
  have v: "runCallback 3000 (RevertNoteColor 1) (start (\<lambda>n. 7 / 2) 0)
            = ([], (start (\<lambda>n. 7 / 2) 0)\<lparr>keyColors := (keyColors (start (\<lambda>n. 7 / 2) 0))(nat 1 \<mapsto> Gray 255)\<rparr>)"
    by blast
  show ?thesis
    unfolding p r v by (simp add: start_eq)
qed

section \<open>Input during the replay\<close>

lemma keyBody_sequencePlaying:
  "fst (keyBody now keypoint j (s\<lparr>sequencePlaying := p\<rparr>)) = fst (keyBody now keypoint j s)
   \<and> (\<exists>p'. snd (keyBody now keypoint j (s\<lparr>sequencePlaying := p\<rparr>))
            = (snd (keyBody now keypoint j s))\<lparr>sequencePlaying := p'\<rparr>)"
proof (cases "inside keypoint j s
    \<and> isKeyPressed s j \<noteq> Some True \<and> now - lastKeyPressTime s > debounceTime")
  case False
  have "snd (keyBody now keypoint j (s\<lparr>sequencePlaying := p\<rparr>))
          = (snd (keyBody now keypoint j s))\<lparr>sequencePlaying := p\<rparr>"
    using False by (auto simp: keyBody_eq inside_def)
  moreover have "fst (keyBody now keypoint j (s\<lparr>sequencePlaying := p\<rparr>)) = fst (keyBody now keypoint j s)"
    using False by (auto simp: keyBody_eq inside_def)
  ultimately show ?thesis by blast
next
  case True
  then have l: "keyBody now keypoint j s = ([NotePlay j], acceptPress now j s)"
    by (simp add: keyBody_eq)
  from True have r: "keyBody now keypoint j (s\<lparr>sequencePlaying := p\<rparr>)
      = ([NotePlay j], acceptPress now j (s\<lparr>sequencePlaying := p\<rparr>))"
    by (simp add: keyBody_eq inside_def)
  have "acceptPress now j (s\<lparr>sequencePlaying := p\<rparr>)
      = (acceptPress now j s)\<lparr>sequencePlaying := sequencePlaying (acceptPress now j (s\<lparr>sequencePlaying := p\<rparr>))\<rparr>"
    by (simp add: acceptPress_def setTimeout_def Let_def checkVictory_eq checkLoss_eq del: upt_Suc)
  then show ?thesis
    unfolding l r by (simp only: fst_conv snd_conv) blast
qed

lemma keysLoop_sequencePlaying:
  "fst (keysLoop now keypoint j (s\<lparr>sequencePlaying := p\<rparr>)) = fst (keysLoop now keypoint j s)
   \<and> (\<exists>p'. snd (keysLoop now keypoint j (s\<lparr>sequencePlaying := p\<rparr>))
            = (snd (keysLoop now keypoint j s))\<lparr>sequencePlaying := p'\<rparr>)"
proof (induction now keypoint j s arbitrary: p rule: keysLoop.induct)
  case (1 now keypoint j s)
  show ?case
  proof (cases "j < numKeys")
    case False
    then show ?thesis
      by (subst (1 2 3 4) keysLoop.simps) auto
  next
    case True
    obtain p1 where b: "snd (keyBody now keypoint j (s\<lparr>sequencePlaying := p\<rparr>))
            = (snd (keyBody now keypoint j s))\<lparr>sequencePlaying := p1\<rparr>"
      and e: "fst (keyBody now keypoint j (s\<lparr>sequencePlaying := p\<rparr>)) = fst (keyBody now keypoint j s)"
      using keyBody_sequencePlaying [where now = now and keypoint = keypoint and j = j and s = s and p = p] by blast
    from 1 [OF True refl, where p = p1] obtain p2 where
      ih1: "fst (keysLoop now keypoint (Suc j) ((snd (keyBody now keypoint j s))\<lparr>sequencePlaying := p1\<rparr>))
              = fst (keysLoop now keypoint (Suc j) (snd (keyBody now keypoint j s)))"
      and ih2: "snd (keysLoop now keypoint (Suc j) ((snd (keyBody now keypoint j s))\<lparr>sequencePlaying := p1\<rparr>))
              = (snd (keysLoop now keypoint (Suc j) (snd (keyBody now keypoint j s))))\<lparr>sequencePlaying := p2\<rparr>"
      by blast
    have l: "keysLoop now keypoint j s =
        (fst (keyBody now keypoint j s) @ fst (keysLoop now keypoint (Suc j) (snd (keyBody now keypoint j s))),
         snd (keysLoop now keypoint (Suc j) (snd (keyBody now keypoint j s))))"
      using True by (subst keysLoop.simps) (simp add: Let_def)
    have r: "keysLoop now keypoint j (s\<lparr>sequencePlaying := p\<rparr>) =
        (fst (keyBody now keypoint j s) @ fst (keysLoop now keypoint (Suc j) (snd (keyBody now keypoint j s))),
         (snd (keysLoop now keypoint (Suc j) (snd (keyBody now keypoint j s))))\<lparr>sequencePlaying := p2\<rparr>)"
      using True by (subst keysLoop.simps) (simp add: Let_def b e ih1 ih2)
    show ?thesis
      unfolding l r by (simp only: fst_conv snd_conv) blast
  qed
qed

lemma handsLoop_sequencePlaying:
  "fst (handsLoop now hs (s\<lparr>sequencePlaying := p\<rparr>)) = fst (handsLoop now hs s)
   \<and> (\<exists>p'. snd (handsLoop now hs (s\<lparr>sequencePlaying := p\<rparr>))
            = (snd (handsLoop now hs s))\<lparr>sequencePlaying := p'\<rparr>)"
proof (induction hs arbitrary: s p)
  case Nil
  show ?case by auto
next
  case (Cons hand rest)
  obtain p1 where b: "snd (keysLoop now (keypoint8 hand) 0 (s\<lparr>sequencePlaying := p\<rparr>))
            = (snd (keysLoop now (keypoint8 hand) 0 s))\<lparr>sequencePlaying := p1\<rparr>"
    and e: "fst (keysLoop now (keypoint8 hand) 0 (s\<lparr>sequencePlaying := p\<rparr>))
            = fst (keysLoop now (keypoint8 hand) 0 s)"
    using keysLoop_sequencePlaying [where now = now and keypoint = "keypoint8 hand" and j = 0 and s = s and p = p] by blast
  from Cons [where s = "snd (keysLoop now (keypoint8 hand) 0 s)" and p = p1] obtain p2 where
    ih1: "fst (handsLoop now rest ((snd (keysLoop now (keypoint8 hand) 0 s))\<lparr>sequencePlaying := p1\<rparr>))
            = fst (handsLoop now rest (snd (keysLoop now (keypoint8 hand) 0 s)))"
    and ih2: "snd (handsLoop now rest ((snd (keysLoop now (keypoint8 hand) 0 s))\<lparr>sequencePlaying := p1\<rparr>))
            = (snd (handsLoop now rest (snd (keysLoop now (keypoint8 hand) 0 s))))\<lparr>sequencePlaying := p2\<rparr>"
    by blast
  show ?case
    by (simp add: Let_def b e ih1 ih2) blast
qed

text \<open>
  Claim C9. \<open>draw\<close> never reads \<open>sequencePlaying\<close>: two frames at the same time from
  states that differ only in that flag draw the same, play the same notes (accept the
  same presses) and end in states that differ at most in that flag. A press made while
  the sequence is being replayed is checked against the cursor like any other press.
\<close>

theorem draw_ignores_sequencePlaying:
  "fst (draw now (s\<lparr>sequencePlaying := p\<rparr>)) = fst (draw now s)
   \<and> (snd (draw now (s\<lparr>sequencePlaying := p\<rparr>)))\<lparr>sequencePlaying := q\<rparr>
       = (snd (draw now s))\<lparr>sequencePlaying := q\<rparr>"
proof (cases "message s = []")
  case False
  then show ?thesis
    by (simp add: draw_def displayMessage_def Let_def)
next
  case True
  obtain p' where
    e: "fst (handsLoop now (hands s) (s\<lparr>sequencePlaying := p\<rparr>)) = fst (handsLoop now (hands s) s)"
    and b: "snd (handsLoop now (hands s) (s\<lparr>sequencePlaying := p\<rparr>))
            = (snd (handsLoop now (hands s) s))\<lparr>sequencePlaying := p'\<rparr>"
    using handsLoop_sequencePlaying [where now = now and hs = "hands s" and s = s and p = p] by blast
  have dp: "drawPiano (s\<lparr>sequencePlaying := p\<rparr>) = drawPiano s"
    by (simp add: drawPiano_def whiteKeysLoop_eq blackKeysLoop_eq cong: if_cong)
  show ?thesis
    using True by (simp add: draw_def Let_def e b dp)
qed


theorem draw_ignores_sequencePlaying_witness:
  "sequencePlaying (run [GotHands [Hand (Keypoint 360 50)]] (start (\<lambda>n. 7 / 2) 0))
   \<and> currentNoteIndex (run [GotHands [Hand (Keypoint 360 50)]] (start (\<lambda>n. 7 / 2) 0)) = 0
   \<and> NotePlay 3 \<in> set (fst (draw 600 (run [GotHands [Hand (Keypoint 360 50)]] (start (\<lambda>n. 7 / 2) 0))))
   \<and> NotePlay 3 \<in> set (fst (draw 600
         ((run [GotHands [Hand (Keypoint 360 50)]] (start (\<lambda>n. 7 / 2) 0))\<lparr>sequencePlaying := False\<rparr>)))
   \<and> sequenceLength (snd (draw 600 (run [GotHands [Hand (Keypoint 360 50)]] (start (\<lambda>n. 7 / 2) 0)))) = 2"
proof -
  let ?S = "run [GotHands [Hand (Keypoint 360 50)]] (start (\<lambda>n. 7 / 2) 0)"
  have sp: "sequencePlaying ?S" "currentNoteIndex ?S = 0"
    by (simp_all add: start_eq gotHands_def)
  have press: "NotePlay 3 \<in> set (fst (draw 600 ?S))"
    by (rule draw_fst_press) (simp_all add: start_eq gotHands_def frame_eval)
  have lvl: "sequenceLength (snd (draw 600 ?S)) = 2"
    by (simp add: start_eq gotHands_def draw_def frame_eval acceptPress_def setTimeout_def
        checkVictory_eq Let_def)
  from draw_ignores_sequencePlaying [where now = 600 and s = ?S and p = False]
  have "fst (draw 600 (?S\<lparr>sequencePlaying := False\<rparr>)) = fst (draw 600 ?S)"
    by blast
  with press have "NotePlay 3 \<in> set (fst (draw 600 (?S\<lparr>sequencePlaying := False\<rparr>)))"
    by simp
  with sp press lvl show ?thesis by blast
qed

section \<open>The keyboard\<close>

lemma whiteKeysLoop_explicit:
  "whiteKeysLoop 0 s =
     concat (map (\<lambda>k. [Fill (keyColors s k), Stroke 0,
                         Rect (real k * whiteKeyWidth s) 0 (whiteKeyWidth s) (whiteKeyHeight s)])
               [0, 1, 2, 3, 4, 5, 6, 7])"
  by (simp add: whiteKeysLoop_eq numKeys_def upt_rec eval_nat_numeral)

lemma blackKeysLoop_explicit:
  "blackKeysLoop 0 s =
     concat (map (\<lambda>k. [Fill (Some (Gray 0)), Stroke 0,
                         Rect (real (k + 1) * whiteKeyWidth s - blackKeyWidth s / 2) 0
                           (blackKeyWidth s) (blackKeyHeight s)])
               [0, 1, 3, 4, 5])"
  by (simp add: blackKeysLoop_eq numKeys_def upt_rec eval_nat_numeral)

lemma whiteKeySpans_eq:
  assumes "whiteKeyWidth s = W / 8"
  shows "whiteKeySpans s = map (\<lambda>j. (real j * W / 8, (real j + 1) * W / 8, 0, whiteKeyHeight s)) [0, 1, 2, 3, 4, 5, 6, 7]"
  using assms by (simp add: whiteKeySpans_def whiteKeysLoop_explicit)

lemma blackKeyCentres_eq:
  assumes "whiteKeyWidth s = W / 8"
  shows "blackKeyCentres s = map (\<lambda>k. real k * W / 8) [1, 2, 4, 5, 6]"
  using assms by (simp add: blackKeyCentres_def blackKeysLoop_explicit)

text \<open>
  Claim C4, as amended. With eight keys and white keys of width \<open>W / 8\<close>, \<open>drawPiano\<close>
  draws white key \<open>j\<close> from \<open>x = j W / 8\<close> to \<open>x = (j + 1) W / 8\<close> and from the top of the
  canvas down to \<open>whiteKeyHeight\<close>, and it draws five black keys, centred on the
  white-key boundaries \<open>x = k W / 8\<close> for \<open>k = 1, 2, 4, 5, 6\<close> (the loop indices
  \<open>i = 0, 1, 3, 4, 5\<close>, the boundary being \<open>i + 1\<close>): there is none on the boundaries
  3 and 7, which the loop skips as indices 2 and 6. \<open>setup\<close> makes the width of a white
  key an eighth of the canvas width \<open>w\<close> and its height a third of the canvas height \<open>h\<close>.
\<close>

theorem keyboard_layout:
  assumes "whiteKeyWidth s = W / 8"
  shows "whiteKeySpans s
           = map (\<lambda>j. (real j * W / 8, (real j + 1) * W / 8, 0, whiteKeyHeight s)) [0..<numKeys]
         \<and> blackKeyCentres s = map (\<lambda>k. real k * W / 8) [1, 2, 4, 5, 6]
         \<and> whiteKeyWidth (sketch_setup now s0) = w / 8
         \<and> whiteKeyHeight (sketch_setup now s0) = h / 3"
proof -
  have "[0..<numKeys] = [0, 1, 2, 3, 4, 5, 6, 7]"
    by (simp add: numKeys_def upt_rec)
  moreover have "whiteKeyWidth (sketch_setup now s0) = w / 8 \<and> whiteKeyHeight (sketch_setup now s0) = h / 3"
    by (simp add: sketch_setup_def Let_def generateSequence_eq numKeys_def)
  ultimately show ?thesis
    using whiteKeySpans_eq [OF assms] blackKeyCentres_eq [OF assms] by simp
qed

theorem keyboard_layout_witness:
  "whiteKeyWidth (start (\<lambda>n. 7 / 2) 0) = 640 / 8
   \<and> whiteKeySpans (start (\<lambda>n. 7 / 2) 0)
       = [(0, 80, 0, 160), (80, 160, 0, 160), (160, 240, 0, 160), (240, 320, 0, 160),
          (320, 400, 0, 160), (400, 480, 0, 160), (480, 560, 0, 160), (560, 640, 0, 160)]
   \<and> blackKeyCentres (start (\<lambda>n. 7 / 2) 0) = [80, 160, 320, 400, 480]"
proof -
  have ww: "whiteKeyWidth (start (\<lambda>n. 7 / 2) 0) = 640 / 8"
    by (simp add: start_eq)
  have hh: "whiteKeyHeight (start (\<lambda>n. 7 / 2) 0) = 160"
    by (simp add: start_eq)
  from keyboard_layout [OF ww] ww hh show ?thesis
    by (simp add: numKeys_def upt_rec)
qed

text \<open>
  The claim as written puts black keys on the boundaries 1, 3, 4, 5 and 7. On the canvas
  of the sketch no black key is centred on boundary 7, whether boundary \<open>k\<close> is read as the
  line \<open>x = k w / 8\<close> or as the line after white key \<open>k\<close>, \<open>x = (k + 1) w / 8\<close>.
\<close>

theorem keyboard_layout_counterexample:
  "\<not> (\<forall>k \<in> {1, 3, 4, 5, 7}. real k * w / 8 \<in> set (blackKeyCentres (start (\<lambda>n. 7 / 2) 0)))
   \<and> \<not> (\<forall>k \<in> {1, 3, 4, 5, 7}. real (k + 1) * w / 8 \<in> set (blackKeyCentres (start (\<lambda>n. 7 / 2) 0)))"
proof -
  have ww: "whiteKeyWidth (start (\<lambda>n. 7 / 2) 0) = 640 / 8"
    by (simp add: start_eq)
  have c: "blackKeyCentres (start (\<lambda>n. 7 / 2) 0) = [80, 160, 320, 400, 480]"
    by (simp add: blackKeyCentres_eq [OF ww])
  have "real 7 * w / 8 \<notin> set (blackKeyCentres (start (\<lambda>n. 7 / 2) 0))"
    unfolding c by (simp add: w_def)
  moreover have "real (7 + 1) * w / 8 \<notin> set (blackKeyCentres (start (\<lambda>n. 7 / 2) 0))"
    unfolding c by (simp add: w_def)
  ultimately show ?thesis by blast
qed

end
